theory Spec2Isabelle
  imports Main
begin

section \<open>Strings as Python handles them\<close>

text \<open>
  The source is \<^verbatim>\<open>src/filter_covered_commits.py\<close>. Python strings are modelled as
  \<^typ>\<open>string\<close>; the few \<^verbatim>\<open>str\<close> methods the program calls are written out below.
\<close>

definition whitespace :: "char list" where
  \<comment> \<open>the characters below code point 256 for which Python's \<^verbatim>\<open>str.isspace\<close> holds\<close>
  "whitespace =
     [CHR 0x09, CHR 0x0A, CHR 0x0B, CHR 0x0C, CHR 0x0D, CHR 0x1C, CHR 0x1D, CHR 0x1E,
      CHR 0x1F, CHR 0x20, CHR 0x85, CHR 0xA0]"

definition is_space :: "char \<Rightarrow> bool" where
  "is_space c = (c \<in> set whitespace)"

definition strip :: "string \<Rightarrow> string" where
  \<comment> \<open>\<^verbatim>\<open>s.strip()\<close>\<close>
  "strip s = rev (dropWhile is_space (rev (dropWhile is_space s)))"

definition rstrip :: "char \<Rightarrow> string \<Rightarrow> string" where
  \<comment> \<open>\<^verbatim>\<open>s.rstrip(c)\<close> for a one-character argument\<close>
  "rstrip c s = rev (dropWhile (\<lambda>x. x = c) (rev s))"

definition replace :: "char \<Rightarrow> char \<Rightarrow> string \<Rightarrow> string" where
  \<comment> \<open>\<^verbatim>\<open>s.replace(a, b)\<close> for one-character arguments\<close>
  "replace a b s = map (\<lambda>x. if x = a then b else x) s"

fun str_split :: "char \<Rightarrow> string \<Rightarrow> string list" where
  \<comment> \<open>\<^verbatim>\<open>s.split(sep)\<close> for a one-character separator: never an empty list\<close>
  "str_split sep [] = [[]]"
| "str_split sep (c # cs) =
     (if c = sep then [] # str_split sep cs
      else (case str_split sep cs of
              [] \<Rightarrow> [[c]]
            | w # ws \<Rightarrow> (c # w) # ws))"

definition rfind :: "char \<Rightarrow> string \<Rightarrow> nat" where
  \<comment> \<open>\<^verbatim>\<open>s.rfind(c)\<close>, read only where \<^verbatim>\<open>c in s\<close> has been tested\<close>
  "rfind c s = length s - 1 - length (takeWhile (\<lambda>x. x \<noteq> c) (rev s))"

definition startswith :: "string \<Rightarrow> string \<Rightarrow> bool" where
  \<comment> \<open>\<^verbatim>\<open>s.startswith(p)\<close>\<close>
  "startswith s p = (take (length p) s = p)"

datatype py_error = IndexError | ValueError | OtherError string

fun str_of_error :: "py_error \<Rightarrow> string" where
  \<comment> \<open>\<^verbatim>\<open>str(e)\<close>\<close>
  "str_of_error IndexError = ''list index out of range''"
| "str_of_error ValueError = ''invalid literal for int()''"
| "str_of_error (OtherError msg) = msg"

section \<open>Method identifiers and descriptor prefixes\<close>

definition primitive_map :: "(string \<times> string) list" where
  "primitive_map =
     [(''boolean'', ''Z''), (''byte'', ''B''), (''char'', ''C''), (''double'', ''D''),
      (''float'', ''F''), (''int'', ''I''), (''long'', ''J''), (''short'', ''S''),
      (''void'', ''V'')]"

definition java_type_to_descriptor :: "string \<Rightarrow> string" where
  "java_type_to_descriptor java_type =
     (let t = strip java_type in
      case map_of primitive_map t of
        Some d \<Rightarrow> d
      | None \<Rightarrow> ''L'' @ replace (CHR ''.'') (CHR ''/'') t @ '';'')"

definition params_to_desc_prefix :: "string \<Rightarrow> string" where
  "params_to_desc_prefix params_str =
     (if params_str = [] then ''()''
      else (let params = map strip (str_split (CHR '','') params_str);
                desc_parts = map java_type_to_descriptor params
            in ''('' @ concat desc_parts @ '')''))"

definition parse_method_id :: "string \<Rightarrow> py_error + (string \<times> string \<times> string) option" where
  \<comment> \<open>\<^verbatim>\<open>method_id.split('(')[1]\<close> raises IndexError when the identifier has no
      \<^verbatim>\<open>(\<close>; the triple of \<^verbatim>\<open>None\<close>s the source returns when the part before
      the bracket has no dot is \<^term>\<open>None\<close> here\<close>
  "parse_method_id method_id =
     (case str_split (CHR ''('') method_id of
        method_part # second # _ \<Rightarrow>
          (let params_str = rstrip (CHR '')'') second in
           if CHR ''.'' \<in> set method_part then
             (let last_dot = rfind (CHR ''.'') method_part;
                  class_name = take last_dot method_part;
                  method_name = drop (last_dot + 1) method_part
              in Inr (Some (class_name, method_name, params_str)))
           else Inr None)
      | _ \<Rightarrow> Inl IndexError)"

definition query_prefix :: "string \<Rightarrow> string" where
  \<comment> \<open>line 261 of \<^verbatim>\<open>check_jacoco_coverage\<close>:
      \<^verbatim>\<open>params_to_desc_prefix(params_str) if params_str else ''\<close>\<close>
  "query_prefix params_str = (if params_str \<noteq> [] then params_to_desc_prefix params_str else [])"

section \<open>The coverage report and its interpreter\<close>

text \<open>
  The JaCoCo report is read through \<^verbatim>\<open>xml.etree\<close>. The model keeps what
  \<^verbatim>\<open>check_jacoco_coverage\<close> reads of it: the \<^verbatim>\<open>class\<close> elements in document
  order (the result of \<^verbatim>\<open>root.findall('.//class')\<close>), for each its \<^verbatim>\<open>name\<close>
  attribute and its \<^verbatim>\<open>method\<close> children, and for each method its \<^verbatim>\<open>name\<close> and
  \<^verbatim>\<open>desc\<close> attributes and its \<^verbatim>\<open>counter\<close> children in order. An attribute that
  is absent is \<^term>\<open>None\<close>. The \<^verbatim>\<open>covered\<close> attribute goes through Python's
  \<^verbatim>\<open>int(...)\<close>, which raises ValueError on text that is no integer literal.
\<close>

datatype covered_attr = CoveredAbsent | CoveredInt int | CoveredBad

record counter =
  counter_type :: "string option"
  covered :: covered_attr

record method_entry =
  method_name :: "string option"
  method_desc :: "string option"
  counters :: "counter list"

record class_entry =
  class_name :: "string option"
  methods :: "method_entry list"

type_synonym report = "class_entry list"

datatype jacoco_file = NoReport | BadReport | Report report

fun int_covered :: "covered_attr \<Rightarrow> py_error + int" where
  \<comment> \<open>\<^verbatim>\<open>int(counter.get('covered', 0))\<close>\<close>
  "int_covered CoveredAbsent = Inr 0"
| "int_covered (CoveredInt n) = Inr n"
| "int_covered CoveredBad = Inl ValueError"

definition desc_of :: "method_entry \<Rightarrow> string" where
  \<comment> \<open>\<^verbatim>\<open>method.get('desc', '')\<close>\<close>
  "desc_of m = (case method_desc m of None \<Rightarrow> [] | Some d \<Rightarrow> d)"

fun methods_loop :: "string \<Rightarrow> string \<Rightarrow> method_entry list \<Rightarrow> py_error + bool" where
  \<comment> \<open>the loop over \<^verbatim>\<open>cls.findall('method')\<close>: \<^term>\<open>Inr True\<close> when it leaves
      through \<^verbatim>\<open>coverage_found = True ... break\<close>, \<^term>\<open>Inr False\<close> when it runs out\<close>
  "methods_loop focal_method params_prefix [] = Inr False"
| "methods_loop focal_method params_prefix (m # ms) =
     (if method_name m = Some focal_method \<and> startswith (desc_of m) params_prefix then
        (case counters m of
           [] \<Rightarrow> methods_loop focal_method params_prefix ms
         | c # _ \<Rightarrow>
             (case int_covered (covered c) of
                Inl e \<Rightarrow> Inl e
              | Inr n \<Rightarrow>
                  if counter_type c = Some ''INSTRUCTION'' \<and> n > 0 then Inr True
                  else methods_loop focal_method params_prefix ms))
      else methods_loop focal_method params_prefix ms)"

fun classes_loop :: "string \<Rightarrow> string \<Rightarrow> string \<Rightarrow> class_entry list \<Rightarrow> py_error + bool" where
  \<comment> \<open>the loop over \<^verbatim>\<open>root.findall('.//class')\<close>, left by \<^verbatim>\<open>break\<close> after the
      first class whose name is the internal class name\<close>
  "classes_loop internal_class_name focal_method params_prefix [] = Inr False"
| "classes_loop internal_class_name focal_method params_prefix (cls # rest) =
     (if class_name cls = Some internal_class_name then
        methods_loop focal_method params_prefix (methods cls)
      else classes_loop internal_class_name focal_method params_prefix rest)"

fun focal_loop :: "report \<Rightarrow> string list \<Rightarrow> string list \<Rightarrow> py_error + string list" where
  \<comment> \<open>the loop over \<^verbatim>\<open>focal_methods\<close>; the third argument is \<^verbatim>\<open>covered_methods\<close>\<close>
  "focal_loop root [] covered_methods = Inr covered_methods"
| "focal_loop root (focal_method_id # rest) covered_methods =
     (case parse_method_id focal_method_id of
        Inl e \<Rightarrow> Inl e
      | Inr None \<Rightarrow> focal_loop root rest covered_methods
      | Inr (Some (focal_class, focal_method, params_str)) \<Rightarrow>
          if focal_class = [] \<or> focal_method = [] then focal_loop root rest covered_methods
          else
            (case classes_loop (replace (CHR ''.'') (CHR ''/'') focal_class) focal_method
                    (query_prefix params_str) root of
               Inl e \<Rightarrow> Inl e
             | Inr True \<Rightarrow> focal_loop root rest (covered_methods @ [focal_method_id])
             | Inr False \<Rightarrow> focal_loop root rest covered_methods))"

definition check_jacoco_coverage :: "jacoco_file \<Rightarrow> string list \<Rightarrow> string list" where
  \<comment> \<open>a missing file returns the empty list at once; a file \<^verbatim>\<open>ET.parse\<close> rejects, and
      any exception of the loop, ends in the \<^verbatim>\<open>except\<close> branch, which returns the
      empty list\<close>
  "check_jacoco_coverage jacoco_xml focal_methods =
     (case jacoco_xml of
        NoReport \<Rightarrow> []
      | BadReport \<Rightarrow> []
      | Report root \<Rightarrow>
          (case focal_loop root focal_methods [] of
             Inl e \<Rightarrow> []
           | Inr covered_methods \<Rightarrow> covered_methods))"

section \<open>Persisted state and the environment\<close>

text \<open>
  A verification result and a progress record are JSON objects in the source. The keys
  a result may carry are \<^verbatim>\<open>commit\<close>, \<^verbatim>\<open>new_pairs\<close>, \<^verbatim>\<open>old_pairs\<close>,
  \<^verbatim>\<open>status\<close>, \<^verbatim>\<open>reason\<close> and \<^verbatim>\<open>error_message\<close>; a key the source leaves out
  is \<^term>\<open>None\<close>. The timestamps of a progress record (\<^verbatim>\<open>start_time\<close>,
  \<^verbatim>\<open>last_update\<close>, \<^verbatim>\<open>end_time\<close>, \<^verbatim>\<open>execution_time_seconds\<close>) and the constant
  \<^verbatim>\<open>progress_percentage\<close> are left out: nothing in the program reads them.
  A commit descriptor, a stored result and a stored progress record have the shape the
  program reads and writes: a file that holds other JSON, on which the source would raise
  KeyError or AttributeError outside every \<^verbatim>\<open>try\<close>, is not a value of these types.
  A file that is missing, and a file \<^verbatim>\<open>json.load\<close> rejects, are values of their own.
\<close>

record pair =
  test_method_id :: string
  focal_method_id :: string

record verification_result =
  commit :: string
  new_pairs :: "pair list"
  old_pairs :: "pair list"
  status :: string
  reason :: "string option"
  error_message :: "string option"

record progress =
  progress_project :: string
  progress_status :: string
  processed_commits :: "string list"
  current_index :: int
  total_commits :: int
  successful_commits :: int

record commit_info =
  sha1 :: string
  new_focal_methods :: "string list"
  new_test_methods :: "string list"
  old_focal_methods :: "string list"
  old_test_methods :: "string list"

datatype results_file = NoResults | BadResults | Results "verification_result list"

datatype progress_file = NoProgress | BadProgress | Progress progress

datatype commits_file = NoCommits | BadCommits | Commits "commit_info list"

datatype action =
    RunCommand "string list" string
  | ConfigureJacoco string
  | ModifyJavaVersion string
  | ModifyParentVersion string
  | Rmtree string
  | GetCommitInfo string string
  | Chdir string

text \<open>
  The trace lists, in order, what a run did to the world outside the process: the
  external actions it executed and the files it wrote. \<open>Verify i c\<close> marks the moment
  the batch driver hands the commit at index \<open>i\<close>, with identifier \<open>c\<close>, to the verifier.
\<close>

datatype event =
    Exec action
  | ResultSaved string verification_result
  | ProgressSaved string progress
  | Verify int string

text \<open>
  The working copy, the build tool and the file system outside the two output
  directories are a state of type \<open>'w\<close> that the program only reaches through the
  environment: \<open>exec\<close> runs an action and tells whether it succeeded, or raises;
  \<open>read_report\<close> is the file at a path as \<^verbatim>\<open>check_jacoco_coverage\<close> finds it;
  \<open>valid_commits\<close> is a project's work list. The two output directories are part of
  the state: one file for each project name in each, and for each directory whether a
  file in it can be opened for writing. A write that fails leaves the file as it was, as
  \<^verbatim>\<open>open(..., 'w')\<close> does when it raises.
\<close>

record 'w env =
  exec :: "action \<Rightarrow> 'w \<Rightarrow> (py_error + bool) \<times> 'w"
  read_report :: "string \<Rightarrow> 'w \<Rightarrow> jacoco_file"
  valid_commits :: "string \<Rightarrow> commits_file"

record 'w sys =
  progress_files :: "string \<Rightarrow> progress_file"
  progress_writable :: bool
  results_files :: "string \<Rightarrow> results_file"
  results_writable :: bool
  world :: 'w
  trace :: "event list"

definition path_join :: "string \<Rightarrow> string \<Rightarrow> string" where
  \<comment> \<open>\<^verbatim>\<open>os.path.join(a, b)\<close> for a relative \<open>b\<close>\<close>
  "path_join a b = (if a = [] then b else if last a = CHR ''/'' then a @ b else a @ ''/'' @ b)"

subsection \<open>ProgressTracker\<close>

definition fresh_progress :: "string \<Rightarrow> string \<Rightarrow> int \<Rightarrow> progress" where
  "fresh_progress name st n_commits =
     \<lparr>progress_project = name, progress_status = st, processed_commits = [],
      current_index = 0, total_commits = n_commits, successful_commits = 0\<rparr>"

definition load_progress :: "string \<Rightarrow> 'w sys \<Rightarrow> progress" where
  "load_progress name s =
     (case progress_files s name of
        Progress p \<Rightarrow> p
      | _ \<Rightarrow> fresh_progress name ''not_started'' 0)"

definition save_progress :: "string \<Rightarrow> progress \<Rightarrow> 'w sys \<Rightarrow> bool \<times> 'w sys" where
  "save_progress name progress_data s =
     (if progress_writable s then
        (True, s\<lparr>progress_files := (progress_files s)(name := Progress progress_data),
                 trace := trace s @ [ProgressSaved name progress_data]\<rparr>)
      else (False, s))"

definition is_commit_processed :: "string \<Rightarrow> string \<Rightarrow> 'w sys \<Rightarrow> bool" where
  "is_commit_processed name commit_sha s =
     (commit_sha \<in> set (processed_commits (load_progress name s)))"

subsection \<open>DynamicSaver\<close>

fun upsert :: "verification_result \<Rightarrow> verification_result list \<Rightarrow> verification_result list" where
  \<comment> \<open>the \<^verbatim>\<open>for ... enumerate(existing_results)\<close> loop with its \<^verbatim>\<open>break\<close>, and
      the \<^verbatim>\<open>append\<close> when \<^verbatim>\<open>commit_exists\<close> stayed false\<close>
  "upsert result [] = [result]"
| "upsert result (existing_result # rest) =
     (if commit existing_result = commit result then result # rest
      else existing_result # upsert result rest)"

definition append_result :: "string \<Rightarrow> verification_result \<Rightarrow> 'w sys \<Rightarrow> bool \<times> 'w sys" where
  "append_result name result s =
     (if results_files s name = NoResults \<and> \<not> results_writable s then (False, s)
      else
        (let existing_results = (case results_files s name of Results rs \<Rightarrow> rs | _ \<Rightarrow> []);
             updated = upsert result existing_results
         in if results_writable s then
              (True, s\<lparr>results_files := (results_files s)(name := Results updated),
                       trace := trace s @ [ResultSaved name result]\<rparr>)
            else (False, s)))"

section \<open>The commit verifier\<close>

definition perform :: "'w env \<Rightarrow> action \<Rightarrow> 'w sys \<Rightarrow> (py_error + bool) \<times> 'w sys" where
  \<comment> \<open>an external action whose exception, if any, reaches the caller\<close>
  "perform e a s =
     (case exec e a (world s) of
        (r, w) \<Rightarrow> (r, s\<lparr>world := w, trace := trace s @ [Exec a]\<rparr>))"

definition run_command :: "'w env \<Rightarrow> string list \<Rightarrow> string \<Rightarrow> 'w sys \<Rightarrow> (py_error + bool) \<times> 'w sys" where
  \<comment> \<open>the subprocess runs inside \<^verbatim>\<open>try\<close>; the version probes before it do not\<close>
  "run_command e cmd cwd s = perform e (RunCommand cmd cwd) s"

definition guarded :: "'w env \<Rightarrow> action \<Rightarrow> 'w sys \<Rightarrow> 'w sys" where
  \<comment> \<open>\<^verbatim>\<open>configure_jacoco_in_pom\<close>, \<^verbatim>\<open>modify_java_version\<close>, \<^verbatim>\<open>modify_parent_version\<close>
      and \<^verbatim>\<open>get_commit_info\<close> keep their work inside \<^verbatim>\<open>try/except\<close>, and
      \<^verbatim>\<open>shutil.rmtree\<close> is called inside one; no caller reads what they return\<close>
  "guarded e a s = snd (perform e a s)"

definition prepare_pom :: "'w env \<Rightarrow> string \<Rightarrow> 'w sys \<Rightarrow> 'w sys" where
  "prepare_pom e project_path s =
     (let pom = path_join project_path ''pom.xml'' in
      guarded e (ModifyParentVersion pom)
        (guarded e (ModifyJavaVersion pom)
          (guarded e (ConfigureJacoco pom) s)))"

definition jacoco_xml_path :: "string \<Rightarrow> string" where
  "jacoco_xml_path project_path =
     path_join (path_join (path_join (path_join project_path ''target'') ''site'') ''jacoco'')
       ''jacoco.xml''"

definition test_cmd :: "string \<Rightarrow> string \<Rightarrow> string list" where
  "test_cmd test_class test_method =
     [''mvn'', ''test'', ''-Dtest='' @ test_class @ ''#'' @ test_method, ''-DskipTests=false'']"

definition record_pairs :: "string \<Rightarrow> string list \<Rightarrow> pair list \<times> int \<Rightarrow> pair list \<times> int" where
  \<comment> \<open>the loop over \<^verbatim>\<open>covered_methods\<close>: one pair appended and the count raised by one
      for each\<close>
  "record_pairs test_id covered_methods acc =
     (fst acc @ map (\<lambda>f. \<lparr>test_method_id = test_id, focal_method_id = f\<rparr>) covered_methods,
      snd acc + int (length covered_methods))"

fun new_tests_loop ::
  "'w env \<Rightarrow> string \<Rightarrow> string list \<Rightarrow> string list \<Rightarrow> pair list \<times> int \<Rightarrow> 'w sys
     \<Rightarrow> (py_error + pair list \<times> int) \<times> 'w sys" where
  \<comment> \<open>step 2; the accumulator is \<^verbatim>\<open>(new_pairs, new_coverage_count)\<close>\<close>
  "new_tests_loop e project_path focals [] acc s = (Inr acc, s)"
| "new_tests_loop e project_path focals (test_id # rest) acc s =
     (case run_command e [''mvn'', ''clean''] project_path s of
        (Inl err, s1) \<Rightarrow> (Inl err, s1)
      | (Inr cleaned, s1) \<Rightarrow>
          (case parse_method_id test_id of
             Inl err \<Rightarrow> (Inl err, s1)
           | Inr None \<Rightarrow> new_tests_loop e project_path focals rest acc s1
           | Inr (Some (test_class, test_method, ps)) \<Rightarrow>
               if test_class = [] \<or> test_method = [] then
                 new_tests_loop e project_path focals rest acc s1
               else
                 (let s2 = guarded e (Rmtree (path_join (path_join project_path ''target'') ''site'')) s1
                  in case run_command e (test_cmd test_class test_method) project_path s2 of
                       (Inl err, s3) \<Rightarrow> (Inl err, s3)
                     | (Inr False, s3) \<Rightarrow> new_tests_loop e project_path focals rest acc s3
                     | (Inr True, s3) \<Rightarrow>
                         new_tests_loop e project_path focals rest
                           (record_pairs test_id
                              (check_jacoco_coverage
                                 (read_report e (jacoco_xml_path project_path) (world s3)) focals)
                              acc)
                           s3)))"

fun old_tests_loop ::
  "'w env \<Rightarrow> string \<Rightarrow> string list \<Rightarrow> string list \<Rightarrow> pair list \<times> int \<Rightarrow> 'w sys
     \<Rightarrow> (py_error + pair list \<times> int) \<times> 'w sys" where
  \<comment> \<open>step 4; the accumulator is \<^verbatim>\<open>(old_pairs, old_coverage_count)\<close>\<close>
  "old_tests_loop e project_path focals [] acc s = (Inr acc, s)"
| "old_tests_loop e project_path focals (test_id # rest) acc s =
     (case parse_method_id test_id of
        Inl err \<Rightarrow> (Inl err, s)
      | Inr None \<Rightarrow> old_tests_loop e project_path focals rest acc s
      | Inr (Some (test_class, test_method, ps)) \<Rightarrow>
          if test_class = [] \<or> test_method = [] then
            old_tests_loop e project_path focals rest acc s
          else
            (case run_command e (test_cmd test_class test_method) project_path s of
               (Inl err, s1) \<Rightarrow> (Inl err, s1)
             | (Inr False, s1) \<Rightarrow> old_tests_loop e project_path focals rest acc s1
             | (Inr True, s1) \<Rightarrow>
                 old_tests_loop e project_path focals rest
                   (record_pairs test_id
                      (check_jacoco_coverage
                         (read_report e (jacoco_xml_path project_path) (world s1)) focals)
                      acc)
                   s1))"

definition failed_result :: "string \<Rightarrow> string \<Rightarrow> verification_result" where
  "failed_result commit_id why =
     \<lparr>commit = commit_id, new_pairs = [], old_pairs = [], status = ''failed'',
      reason = Some why, error_message = None\<rparr>"

definition success_result :: "string \<Rightarrow> pair list \<Rightarrow> pair list \<Rightarrow> verification_result" where
  "success_result commit_id found_new found_old =
     \<lparr>commit = commit_id, new_pairs = found_new, old_pairs = found_old, status = ''success'',
      reason = None, error_message = None\<rparr>"

definition error_result :: "string \<Rightarrow> py_error \<Rightarrow> verification_result" where
  "error_result commit_id err =
     \<lparr>commit = commit_id, new_pairs = [], old_pairs = [], status = ''error'',
      reason = None, error_message = Some (str_of_error err)\<rparr>"

definition switch_to_new :: "'w env \<Rightarrow> string \<Rightarrow> string \<Rightarrow> 'w sys \<Rightarrow> (py_error + bool) \<times> 'w sys" where
  \<comment> \<open>step 1\<close>
  "switch_to_new e commit_id project_path s =
     run_command e [''git'', ''reset'', ''--hard'', commit_id] project_path s"

definition switch_to_old :: "'w env \<Rightarrow> string \<Rightarrow> string \<Rightarrow> 'w sys \<Rightarrow> (py_error + bool) \<times> 'w sys" where
  \<comment> \<open>step 3\<close>
  "switch_to_old e commit_id project_path s =
     (let prev_commit = commit_id @ ''~1'' in
      run_command e [''git'', ''reset'', ''--hard'', prev_commit] project_path
        (guarded e (GetCommitInfo prev_commit project_path) s))"

definition old_tests :: "'w env \<Rightarrow> commit_info \<Rightarrow> string \<Rightarrow> 'w sys
     \<Rightarrow> (py_error + pair list \<times> int) \<times> 'w sys" where
  \<comment> \<open>from \<^verbatim>\<open>mvn clean\<close> after the second checkout to the end of step 4\<close>
  "old_tests e ci project_path s =
     (case run_command e [''mvn'', ''clean''] project_path s of
        (Inl err, s1) \<Rightarrow> (Inl err, s1)
      | (Inr cleaned, s1) \<Rightarrow>
          old_tests_loop e project_path (old_focal_methods ci) (old_test_methods ci) ([], 0)
            (prepare_pom e project_path s1))"

definition old_revision ::
  "'w env \<Rightarrow> commit_info \<Rightarrow> string \<Rightarrow> string \<Rightarrow> pair list \<Rightarrow> 'w sys \<Rightarrow> (py_error + bool) \<times> 'w sys" where
  \<comment> \<open>what the \<^verbatim>\<open>try\<close> block does once the new revision has passed its gate\<close>
  "old_revision e ci project_path name found_new s =
     (case switch_to_old e (sha1 ci) project_path s of
        (Inl err, s1) \<Rightarrow> (Inl err, s1)
      | (Inr False, s1) \<Rightarrow>
          (Inr False,
           snd (append_result name (failed_result (sha1 ci) ''failed_to_switch_to_prev_commit'') s1))
      | (Inr True, s1) \<Rightarrow>
          (case old_tests e ci project_path s1 of
             (Inl err, s2) \<Rightarrow> (Inl err, s2)
           | (Inr (found_old, old_coverage_count), s2) \<Rightarrow>
               if old_coverage_count < 2 then
                 (Inr False,
                  snd (append_result name (failed_result (sha1 ci) ''old_coverage_less_than_2'') s2))
               else
                 (Inr True,
                  snd (append_result name (success_result (sha1 ci) found_new found_old) s2))))"

definition new_tests :: "'w env \<Rightarrow> commit_info \<Rightarrow> string \<Rightarrow> 'w sys
     \<Rightarrow> (py_error + pair list \<times> int) \<times> 'w sys" where
  \<comment> \<open>the build-file preparation after the first checkout, and step 2\<close>
  "new_tests e ci project_path s =
     new_tests_loop e project_path (new_focal_methods ci) (new_test_methods ci) ([], 0)
       (prepare_pom e project_path s)"

definition verification ::
  "'w env \<Rightarrow> commit_info \<Rightarrow> string \<Rightarrow> string \<Rightarrow> 'w sys \<Rightarrow> (py_error + bool) \<times> 'w sys" where
  \<comment> \<open>the body of the \<^verbatim>\<open>try\<close> block: \<^term>\<open>Inr b\<close> is \<^verbatim>\<open>return b\<close>, \<^term>\<open>Inl err\<close>
      an exception on its way to the \<^verbatim>\<open>except\<close> clause\<close>
  "verification e ci project_path name s =
     (case switch_to_new e (sha1 ci) project_path s of
        (Inl err, s1) \<Rightarrow> (Inl err, s1)
      | (Inr False, s1) \<Rightarrow> (Inr False, s1)
      | (Inr True, s1) \<Rightarrow>
          (case new_tests e ci project_path s1 of
             (Inl err, s2) \<Rightarrow> (Inl err, s2)
           | (Inr (found_new, new_coverage_count), s2) \<Rightarrow>
               if new_coverage_count < 2 then
                 (Inr False,
                  snd (append_result name (failed_result (sha1 ci) ''new_coverage_less_than_2'') s2))
               else old_revision e ci project_path name found_new s2))"

definition counts_rejected :: "commit_info \<Rightarrow> bool" where
  \<comment> \<open>the condition of line 528\<close>
  "counts_rejected ci =
     (length (new_test_methods ci) \<ge> 40 \<or> length (new_focal_methods ci) \<ge> 40 \<or>
      length (old_test_methods ci) \<ge> 40 \<or> length (old_focal_methods ci) \<ge> 40 \<or>
      length (old_test_methods ci) = 0 \<or> length (new_test_methods ci) = 0 \<or>
      length (new_focal_methods ci) = 0 \<or> length (old_focal_methods ci) = 0)"

definition process_single_commit ::
  "'w env \<Rightarrow> commit_info \<Rightarrow> string \<Rightarrow> string \<Rightarrow> 'w sys \<Rightarrow> bool \<times> 'w sys" where
  "process_single_commit e ci project_path name s =
     (if is_commit_processed name (sha1 ci) s then (True, s)
      else if counts_rejected ci then (False, s)
      else
        (case verification e ci project_path name s of
           (Inr returned, s1) \<Rightarrow> (returned, s1)
         | (Inl err, s1) \<Rightarrow> (False, snd (append_result name (error_result (sha1 ci) err) s1))))"

section \<open>The batch driver\<close>

definition py_index :: "'a list \<Rightarrow> int \<Rightarrow> py_error + 'a" where
  \<comment> \<open>\<^verbatim>\<open>xs[i]\<close>: a negative index counts from the end\<close>
  "py_index xs i =
     (if 0 \<le> i \<and> i < int (length xs) then Inr (xs ! nat i)
      else if i < 0 \<and> - int (length xs) \<le> i then Inr (xs ! nat (int (length xs) + i))
      else Inl IndexError)"

definition commit_step ::
  "'w env \<Rightarrow> commit_info list \<Rightarrow> string \<Rightarrow> string \<Rightarrow> int \<Rightarrow> progress \<times> 'w sys
     \<Rightarrow> py_error + progress \<times> 'w sys" where
  \<comment> \<open>one round of the loop over \<^verbatim>\<open>range(start_index, total_commits)\<close>\<close>
  "commit_step e commits_data project_path name commit_idx ps =
     (case py_index commits_data commit_idx of
        Inl err \<Rightarrow> Inl err
      | Inr ci \<Rightarrow>
          (let commit_id = sha1 ci;
               progress1 = (fst ps)\<lparr>current_index := commit_idx\<rparr>;
               s1 = snd (save_progress name progress1 (snd ps));
               s2 = s1\<lparr>trace := trace s1 @ [Verify commit_idx commit_id]\<rparr>;
               outcome = process_single_commit e ci project_path name s2;
               progress2 = (if fst outcome
                            then progress1\<lparr>successful_commits := successful_commits progress1 + 1\<rparr>
                            else progress1);
               progress3 = progress2\<lparr>processed_commits := processed_commits progress2 @ [commit_id]\<rparr>
           in Inr (progress3, snd (save_progress name progress3 (snd outcome)))))"

fun commits_loop ::
  "'w env \<Rightarrow> commit_info list \<Rightarrow> string \<Rightarrow> string \<Rightarrow> int list \<Rightarrow> progress \<times> 'w sys
     \<Rightarrow> py_error option \<times> progress \<times> 'w sys" where
  "commits_loop e commits_data project_path name [] ps = (None, ps)"
| "commits_loop e commits_data project_path name (commit_idx # rest) ps =
     (case commit_step e commits_data project_path name commit_idx ps of
        Inl err \<Rightarrow> (Some err, ps)
      | Inr ps' \<Rightarrow> commits_loop e commits_data project_path name rest ps')"

definition projects_root :: string where
  "projects_root = ''/home/hk/ai4se/bin/TUGraph-main/target_projects''"

definition start_progress :: "string \<Rightarrow> int \<Rightarrow> 'w sys \<Rightarrow> progress" where
  \<comment> \<open>the loaded record, replaced by a fresh running one when its status is
      \<^verbatim>\<open>not_started\<close>\<close>
  "start_progress name n s =
     (let loaded = load_progress name s in
      if progress_status loaded = ''not_started'' then fresh_progress name ''running'' n
      else loaded)"

definition process_project :: "'w env \<Rightarrow> string \<Rightarrow> string \<Rightarrow> 'w sys \<Rightarrow> py_error option \<times> 'w sys" where
  \<comment> \<open>one round of the loop over \<^verbatim>\<open>project_dirs\<close> in \<^verbatim>\<open>main\<close>; \<^term>\<open>Some err\<close> is an
      exception that leaves \<^verbatim>\<open>main\<close>\<close>
  "process_project e original_cwd name s =
     (let project_path = path_join projects_root name in
      case valid_commits e name of
        NoCommits \<Rightarrow> (None, s)
      | BadCommits \<Rightarrow> (None, s)
      | Commits commits_data \<Rightarrow>
          (let total = int (length commits_data);
               progress0 = start_progress name total s
           in case perform e (Chdir project_path) s of
                (Inl err, s1) \<Rightarrow> (Some err, s1)
              | (Inr changed, s1) \<Rightarrow>
                  (case run_command e [''git'', ''status'', ''--short''] project_path s1 of
                     (Inl err, s2) \<Rightarrow> (Some err, s2)
                   | (Inr clean, s2) \<Rightarrow>
                       (case commits_loop e commits_data project_path name
                               [current_index progress0 .. total - 1] (progress0, s2) of
                          (Some err, progress1, s3) \<Rightarrow> (Some err, s3)
                        | (None, progress1, s3) \<Rightarrow>
                            (case perform e (Chdir original_cwd) s3 of
                               (Inl err, s4) \<Rightarrow> (Some err, s4)
                             | (Inr back, s4) \<Rightarrow>
                                 (None,
                                  snd (save_progress name
                                         (progress1\<lparr>progress_status := ''completed''\<rparr>) s4)))))))"

fun main :: "'w env \<Rightarrow> string \<Rightarrow> string list \<Rightarrow> 'w sys \<Rightarrow> py_error option \<times> 'w sys" where
  \<comment> \<open>the second argument is \<^verbatim>\<open>os.getcwd()\<close> at the start, the third the directories
      \<^verbatim>\<open>os.listdir\<close> found under the projects root\<close>
  "main e original_cwd [] s = (None, s)"
| "main e original_cwd (name # rest) s =
     (case process_project e original_cwd name s of
        (Some err, s1) \<Rightarrow> (Some err, s1)
      | (None, s1) \<Rightarrow> main e original_cwd rest s1)"

section \<open>The properties in the words of the specification\<close>

text \<open>
  The definitions of this section are not translations of the source. They say, in the
  words of the specification, what the theorems below compare the program with.
\<close>

subsection \<open>Descriptors, coverage and admission\<close>

definition jvm_type_code :: "string \<Rightarrow> string" where
  "jvm_type_code t =
     (if t = ''boolean'' then ''Z'' else if t = ''byte'' then ''B''
      else if t = ''char'' then ''C'' else if t = ''double'' then ''D''
      else if t = ''float'' then ''F'' else if t = ''int'' then ''I''
      else if t = ''long'' then ''J'' else if t = ''short'' then ''S''
      else if t = ''void'' then ''V''
      else ''L'' @ replace (CHR ''.'') (CHR ''/'') t @ '';'')"

definition declared_types :: "string \<Rightarrow> string list" where
  "declared_types params_str =
     (if params_str = [] then [] else map strip (str_split (CHR '','') params_str))"

definition first_counter_covered :: "method_entry \<Rightarrow> bool" where
  "first_counter_covered m =
     (case counters m of
        [] \<Rightarrow> False
      | c # cs \<Rightarrow> counter_type c = Some ''INSTRUCTION'' \<and>
                 (case covered c of CoveredInt n \<Rightarrow> 0 < n | CoveredAbsent \<Rightarrow> False | CoveredBad \<Rightarrow> False))"

definition instruction_counter_covered :: "method_entry \<Rightarrow> bool" where
  "instruction_counter_covered m =
     (\<exists>c \<in> set (counters m). counter_type c = Some ''INSTRUCTION'' \<and>
        (case covered c of CoveredInt n \<Rightarrow> 0 < n | CoveredAbsent \<Rightarrow> False | CoveredBad \<Rightarrow> False))"

definition class_has_covered :: "(method_entry \<Rightarrow> bool) \<Rightarrow> string \<Rightarrow> string \<Rightarrow> class_entry \<Rightarrow> bool" where
  "class_has_covered counted focal_method params_prefix cls =
     (\<exists>m \<in> set (methods cls).
        method_name m = Some focal_method \<and> startswith (desc_of m) params_prefix \<and> counted m)"

definition first_class_covered :: "(method_entry \<Rightarrow> bool) \<Rightarrow> string \<Rightarrow> string \<Rightarrow> string \<Rightarrow> report \<Rightarrow> bool" where
  "first_class_covered counted internal_class_name focal_method params_prefix root =
     (case find (\<lambda>cls. class_name cls = Some internal_class_name) root of
        None \<Rightarrow> False
      | Some cls \<Rightarrow> class_has_covered counted focal_method params_prefix cls)"

definition claimed_prefix :: "string \<Rightarrow> string" where
  \<comment> \<open>the prefix of the claim: a bracket, the type codes of the declared parameter types,
      a bracket; \<^verbatim>\<open>()\<close> for no parameters\<close>
  "claimed_prefix params_str = ''('' @ concat (map jvm_type_code (declared_types params_str)) @ '')''"

definition amended_prefix :: "string \<Rightarrow> string" where
  \<comment> \<open>as claimed for a candidate with parameters, empty for one without\<close>
  "amended_prefix params_str = (if params_str = [] then [] else claimed_prefix params_str)"

definition covered_by ::
  "(method_entry \<Rightarrow> bool) \<Rightarrow> (string \<Rightarrow> string) \<Rightarrow> report \<Rightarrow> string \<Rightarrow> bool" where
  \<comment> \<open>the first class entry with the candidate's dot-to-slash class name has a method
      entry with the candidate's method name, a descriptor that starts with the prefix, and
      a counter that counts as covered\<close>
  "covered_by counted prefix_of root candidate =
     (case parse_method_id candidate of
        Inr (Some (focal_class, focal_method, params_str)) \<Rightarrow>
          first_class_covered counted (replace (CHR ''.'') (CHR ''/'') focal_class) focal_method
            (prefix_of params_str) root
      | _ \<Rightarrow> False)"

definition claimed_covered :: "report \<Rightarrow> string \<Rightarrow> bool" where
  \<comment> \<open>the condition of the claim as it is stated\<close>
  "claimed_covered root candidate = covered_by instruction_counter_covered claimed_prefix root candidate"

definition amended_covered :: "report \<Rightarrow> string \<Rightarrow> bool" where
  \<comment> \<open>the condition of the claim with the prefix the interpreter matches against\<close>
  "amended_covered root candidate = covered_by instruction_counter_covered amended_prefix root candidate"

definition well_named :: "string \<Rightarrow> bool" where
  \<comment> \<open>the identifier parses, with a class name and a method name that are not empty\<close>
  "well_named candidate =
     (case parse_method_id candidate of
        Inr (Some (focal_class, focal_method, params_str)) \<Rightarrow> focal_class \<noteq> [] \<and> focal_method \<noteq> []
      | _ \<Rightarrow> False)"

definition has_params :: "string \<Rightarrow> bool" where
  \<comment> \<open>the identifier parses, with a parameter string that is not empty\<close>
  "has_params candidate =
     (case parse_method_id candidate of
        Inr (Some (focal_class, focal_method, params_str)) \<Rightarrow> params_str \<noteq> []
      | _ \<Rightarrow> False)"

definition reported_covered :: "report \<Rightarrow> string \<Rightarrow> bool" where
  \<comment> \<open>the same with the first counter of the method entry in the place of its
      \<^verbatim>\<open>INSTRUCTION\<close> counter, for a well-named candidate\<close>
  "reported_covered root candidate =
     (well_named candidate \<and> covered_by first_counter_covered amended_prefix root candidate)"

definition first_counters_numeric :: "report \<Rightarrow> bool" where
  \<comment> \<open>the \<^verbatim>\<open>covered\<close> attribute of the first counter of every method entry is absent or
      an integer\<close>
  "first_counters_numeric root =
     list_all (\<lambda>cls. list_all (\<lambda>m. case counters m of [] \<Rightarrow> True | c # cs \<Rightarrow> covered c \<noteq> CoveredBad)
        (methods cls)) root"

definition bracketed :: "string list \<Rightarrow> bool" where
  "bracketed ids = list_all (\<lambda>f. CHR ''('' \<in> set f) ids"

definition instruction_first :: "report \<Rightarrow> bool" where
  \<comment> \<open>no method entry has an \<^verbatim>\<open>INSTRUCTION\<close> counter after its first counter, which is
      how JaCoCo writes a report\<close>
  "instruction_first root =
     list_all (\<lambda>cls. list_all (\<lambda>m. list_all (\<lambda>c. counter_type c \<noteq> Some ''INSTRUCTION'')
        (tl (counters m))) (methods cls)) root"

definition method_sets :: "commit_info \<Rightarrow> string list list" where
  "method_sets ci =
     [new_test_methods ci, new_focal_methods ci, old_test_methods ci, old_focal_methods ci]"

definition inadmissible :: "commit_info \<Rightarrow> bool" where
  \<comment> \<open>one of the four sets has 40 or more entries, or is empty\<close>
  "inadmissible ci = list_ex (\<lambda>xs. 40 \<le> length xs \<or> xs = []) (method_sets ci)"

subsection \<open>What a run leaves behind\<close>

definition stored_results :: "'w sys \<Rightarrow> string \<Rightarrow> verification_result list" where
  \<comment> \<open>what \<^verbatim>\<open>append_result\<close> takes as \<^verbatim>\<open>existing_results\<close>\<close>
  "stored_results s name = (case results_files s name of Results rs \<Rightarrow> rs | _ \<Rightarrow> [])"

definition position :: "string \<Rightarrow> verification_result list \<Rightarrow> nat" where
  \<comment> \<open>the index of the first entry with the given commit identifier\<close>
  "position commit_id rs = length (takeWhile (\<lambda>r. commit r \<noteq> commit_id) rs)"

definition persist :: "string \<Rightarrow> verification_result \<Rightarrow> 'w sys \<Rightarrow> 'w sys" where
  \<comment> \<open>the state after a successful \<^verbatim>\<open>append_result\<close>\<close>
  "persist name r s =
     s\<lparr>results_files := (results_files s)(name := Results (upsert r (stored_results s name))),
       trace := trace s @ [ResultSaved name r]\<rparr>"

fun is_exec :: "event \<Rightarrow> bool" where
  "is_exec (Exec a) = True"
| "is_exec ev = False"

definition kept :: "'w sys \<Rightarrow> (string \<Rightarrow> progress_file) \<times> bool \<times> (string \<Rightarrow> results_file) \<times> bool \<times> event list" where
  \<comment> \<open>what an external action leaves alone: the two output directories, and the trace
      but for the actions themselves\<close>
  "kept s =
     (progress_files s, progress_writable s, results_files s, results_writable s,
      filter (\<lambda>ev. \<not> is_exec ev) (trace s))"

fun saved_result :: "event \<Rightarrow> (string \<times> verification_result) list" where
  "saved_result (ResultSaved name r) = [(name, r)]"
| "saved_result ev = []"

definition saved_results :: "event list \<Rightarrow> (string \<times> verification_result) list" where
  \<comment> \<open>the results a run wrote, in order\<close>
  "saved_results tr = concat (map saved_result tr)"

datatype mark = Cursor int | Attempt int

fun driver_mark :: "event \<Rightarrow> mark list" where
  "driver_mark (ProgressSaved name p) = [Cursor (current_index p)]"
| "driver_mark (Verify i c) = [Attempt i]"
| "driver_mark ev = []"

definition driver_marks :: "event list \<Rightarrow> mark list" where
  \<comment> \<open>the batch driver's own steps in a trace: each save of the progress record, as the
      cursor it wrote, and each commit handed to the verifier, as its index\<close>
  "driver_marks tr = concat (map driver_mark tr)"

definition driver_kept :: "'w sys \<Rightarrow> (string \<Rightarrow> progress_file) \<times> bool \<times> mark list" where
  "driver_kept s = (progress_files s, progress_writable s, driver_marks (trace s))"

fun cursor_of :: "mark \<Rightarrow> int list" where
  "cursor_of (Cursor i) = [i]"
| "cursor_of (Attempt i) = []"

fun attempt_of :: "mark \<Rightarrow> int list" where
  "attempt_of (Cursor i) = []"
| "attempt_of (Attempt i) = [i]"

definition cursors :: "mark list \<Rightarrow> int list" where
  \<comment> \<open>the cursors written, in order\<close>
  "cursors ms = concat (map cursor_of ms)"

definition attempts :: "mark list \<Rightarrow> int list" where
  \<comment> \<open>the indices handed to the verifier, in order\<close>
  "attempts ms = concat (map attempt_of ms)"

definition step_marks :: "bool \<Rightarrow> int \<Rightarrow> mark list" where
  \<comment> \<open>one round of the driver's loop: the cursor is written, the commit attempted, the
      cursor written again; an unwritable progress directory leaves the attempt only\<close>
  "step_marks writable i = (if writable then [Cursor i, Attempt i, Cursor i] else [Attempt i])"

definition run_marks :: "int \<Rightarrow> int \<Rightarrow> mark list" where
  \<comment> \<open>a whole project run that starts at cursor \<open>k\<close> over \<open>n\<close> commits, with the closing
      save of the completed record\<close>
  "run_marks k n =
     concat (map (step_marks True) [k .. n - 1]) @ [Cursor (if k < n then n - 1 else k)]"

definition resume_point :: "progress_file \<Rightarrow> int" where
  \<comment> \<open>where a run starts: at the persisted cursor, and at 0 when there is no record, the
      record cannot be read, or its status is \<^verbatim>\<open>not_started\<close>\<close>
  "resume_point f =
     (case f of
        Progress p \<Rightarrow> (if progress_status p = ''not_started'' then 0 else current_index p)
      | NoProgress \<Rightarrow> 0
      | BadProgress \<Rightarrow> 0)"

definition earlier_commits :: "progress_file \<Rightarrow> string list" where
  \<comment> \<open>the processed commits a run takes over from the persisted record\<close>
  "earlier_commits f =
     (case f of
        Progress p \<Rightarrow> (if progress_status p = ''not_started'' then [] else processed_commits p)
      | NoProgress \<Rightarrow> []
      | BadProgress \<Rightarrow> [])"

subsection \<open>Sample inputs\<close>

definition foo_method :: "string \<Rightarrow> counter list \<Rightarrow> report" where
  "foo_method d cs =
     [\<lparr>class_name = Some ''com/example/Foo'',
       methods = [\<lparr>method_name = Some ''bar'', method_desc = Some d, counters = cs\<rparr>]\<rparr>]"

definition foo_report :: "int \<Rightarrow> report" where
  "foo_report n = foo_method ''(I)V'' [\<lparr>counter_type = Some ''INSTRUCTION'', covered = CoveredInt n\<rparr>]"

definition two_methods_report :: report where
  "two_methods_report =
     [\<lparr>class_name = Some ''com/example/Foo'',
       methods =
         [\<lparr>method_name = Some ''bar'', method_desc = Some ''(I)V'',
           counters = [\<lparr>counter_type = Some ''INSTRUCTION'', covered = CoveredInt 5\<rparr>]\<rparr>,
          \<lparr>method_name = Some ''baz'', method_desc = Some ''()V'',
           counters = [\<lparr>counter_type = Some ''INSTRUCTION'', covered = CoveredInt 3\<rparr>]\<rparr>]\<rparr>]"

definition fixed_env :: "jacoco_file \<Rightarrow> commit_info list \<Rightarrow> unit env" where
  \<comment> \<open>every action succeeds, every test run leaves the same report\<close>
  "fixed_env rep cs =
     \<lparr>exec = (\<lambda>a w. (Inr True, w)), read_report = (\<lambda>path w. rep),
      valid_commits = (\<lambda>name. Commits cs)\<rparr>"

definition sample_commit :: commit_info where
  "sample_commit =
     \<lparr>sha1 = ''c1'',
      new_focal_methods = [''com.example.Foo.bar(int)'', ''com.example.Foo.baz()''],
      new_test_methods = [''com.example.FooTest.testBar()''],
      old_focal_methods = [''com.example.Foo.bar(int)'', ''com.example.Foo.baz()''],
      old_test_methods = [''com.example.FooTest.testBar()'']\<rparr>"

definition crowded_commit :: commit_info where
  \<comment> \<open>41 new test methods, otherwise the sample\<close>
  "crowded_commit =
     sample_commit\<lparr>new_test_methods := replicate 41 ''com.example.FooTest.testBar()''\<rparr>"

definition broken_commit :: commit_info where
  \<comment> \<open>the sample with a new test method identifier that has no bracket\<close>
  "broken_commit = sample_commit\<lparr>new_test_methods := [''nobracket'']\<rparr>"

definition two_commits :: "commit_info list" where
  "two_commits = [crowded_commit\<lparr>sha1 := ''c0''\<rparr>, sample_commit]"

definition sample_pairs :: "pair list" where
  "sample_pairs =
     [\<lparr>test_method_id = ''com.example.FooTest.testBar()'', focal_method_id = ''com.example.Foo.bar(int)''\<rparr>,
      \<lparr>test_method_id = ''com.example.FooTest.testBar()'', focal_method_id = ''com.example.Foo.baz()''\<rparr>]"

definition sample_env :: "unit env" where
  "sample_env = fixed_env (Report two_methods_report) [sample_commit]"

definition one_method_env :: "unit env" where
  \<comment> \<open>as the sample, with a report that covers one of the two focal methods\<close>
  "one_method_env = fixed_env (Report (foo_report 5)) [sample_commit]"

definition bar_pair :: pair where
  "bar_pair =
     \<lparr>test_method_id = ''com.example.FooTest.testBar()'',
      focal_method_id = ''com.example.Foo.bar(int)''\<rparr>"

definition empty_sys :: "unit sys" where
  "empty_sys =
     \<lparr>progress_files = (\<lambda>name. NoProgress), progress_writable = True,
      results_files = (\<lambda>name. NoResults), results_writable = True,
      world = (), trace = []\<rparr>"

definition done_progress :: progress where
  \<comment> \<open>the progress record of a finished run over the one commit \<^verbatim>\<open>c1\<close>\<close>
  "done_progress =
     \<lparr>progress_project = ''p'', progress_status = ''completed'', processed_commits = [''c1''],
      current_index = 0, total_commits = 1, successful_commits = 0\<rparr>"

definition done_sys :: "unit sys" where
  \<comment> \<open>the state a finished run over the one commit \<^verbatim>\<open>c1\<close> leaves behind\<close>
  "done_sys = empty_sys\<lparr>progress_files := (\<lambda>name. Progress done_progress)\<rparr>"

definition resumed_progress :: progress where
  "resumed_progress =
     \<lparr>progress_project = ''p'', progress_status = ''running'', processed_commits = [''c0''],
      current_index = 1, total_commits = 2, successful_commits = 0\<rparr>"

definition resumed_sys :: "unit sys" where
  "resumed_sys = empty_sys\<lparr>progress_files := (\<lambda>name. Progress resumed_progress)\<rparr>"

section \<open>Proofs\<close>

subsection \<open>Descriptor prefixes\<close>

lemma strip_no_lead: "dropWhile is_space (strip s) = strip s"
proof -
  define u where "u = dropWhile is_space s"
  define v where "v = dropWhile is_space (rev u)"
  have s: "strip s = rev v" by (simp add: strip_def u_def v_def)
  show ?thesis
  proof (cases "v = []")
    case True then show ?thesis by (simp add: s)
  next
    case False
    then have "u \<noteq> []" by (auto simp: v_def)
    then have h: "\<not> is_space (hd u)" unfolding u_def by (simp add: hd_dropWhile)
    obtain w where w: "rev u = w @ v" unfolding v_def
      by (metis takeWhile_dropWhile_id)
    from False w have "last v = last (rev u)" by simp
    also have "\<dots> = hd u" using \<open>u \<noteq> []\<close> by (simp add: last_rev)
    finally have "\<not> is_space (last v)" using h by simp
    then have "\<not> is_space (hd (rev v))" using False by (simp add: hd_rev)
    then show ?thesis using False unfolding s by (cases "rev v") auto
  qed
qed

lemma strip_idem: "strip (strip s) = strip s"
proof -
  have "strip (strip s) = rev (dropWhile is_space (rev (strip s)))"
    by (simp add: strip_def[of "strip s"] strip_no_lead)
  also have "\<dots> = strip s" by (simp add: strip_def)
  finally show ?thesis .
qed

lemma java_type_to_descriptor_code: "java_type_to_descriptor (strip t) = jvm_type_code (strip t)"
  by (simp add: java_type_to_descriptor_def jvm_type_code_def strip_idem primitive_map_def)

lemma params_to_desc_prefix_spec:
  "params_to_desc_prefix ps = ''('' @ concat (map jvm_type_code (declared_types ps)) @ '')''"
  by (simp add: params_to_desc_prefix_def declared_types_def java_type_to_descriptor_code comp_def)

text \<open>
  Claim C5, as amended. \<^verbatim>\<open>params_to_desc_prefix\<close> turns a parameter string into
  \<^verbatim>\<open>(\<close>, the JVM type codes of the declared parameter types in order, and \<^verbatim>\<open>)\<close>:
  a primitive type gives its one-letter code, any other type \<^verbatim>\<open>L\<close>, its name with
  dots turned into slashes, and \<^verbatim>\<open>;\<close>. \<^verbatim>\<open>"int,java.lang.String"\<close> gives
  \<^verbatim>\<open>"(ILjava/lang/String;)"\<close> and the empty string gives \<^verbatim>\<open>"()"\<close>. The
  coverage interpreter matches descriptors against that prefix when the candidate's
  parameter string is not empty, and against the empty prefix when it is.
\<close>

theorem descriptor_prefix:
  "query_prefix ps = (if ps = [] then [] else ''('' @ concat (map jvm_type_code (declared_types ps)) @ '')'')
   \<and> params_to_desc_prefix ps = ''('' @ concat (map jvm_type_code (declared_types ps)) @ '')''
   \<and> params_to_desc_prefix ''int,java.lang.String'' = ''(ILjava/lang/String;)''
   \<and> params_to_desc_prefix [] = ''()''"
proof -
  have "params_to_desc_prefix ''int,java.lang.String'' = ''(ILjava/lang/String;)''"
    by code_simp
  moreover have "params_to_desc_prefix [] = ''()''"
    by (simp add: params_to_desc_prefix_def)
  ultimately show ?thesis
    by (simp add: query_prefix_def params_to_desc_prefix_spec)
qed

text \<open>
  The claim as stated fails for a candidate without parameters: the interpreter does not
  match against \<^verbatim>\<open>"()"\<close> but against the empty prefix, so
  \<^verbatim>\<open>com.example.Foo.bar()\<close> is reported covered through a method entry whose
  descriptor is \<^verbatim>\<open>(I)V\<close>.
\<close>

theorem descriptor_prefix_counterexample:
  "parse_method_id ''com.example.Foo.bar()'' = Inr (Some (''com.example.Foo'', ''bar'', []))
   \<and> query_prefix [] \<noteq> ''()''
   \<and> \<not> startswith ''(I)V'' ''()''
   \<and> check_jacoco_coverage (Report (foo_report 5)) [''com.example.Foo.bar()'']
       = [''com.example.Foo.bar()'']"
proof -
  have "parse_method_id ''com.example.Foo.bar()'' = Inr (Some (''com.example.Foo'', ''bar'', []))"
    by code_simp
  moreover have "query_prefix [] \<noteq> ''()''" by (simp add: query_prefix_def)
  moreover have "\<not> startswith ''(I)V'' ''()''" by (simp add: startswith_def)
  moreover have "check_jacoco_coverage (Report (foo_report 5)) [''com.example.Foo.bar()'']
       = [''com.example.Foo.bar()'']" by code_simp
  ultimately show ?thesis by blast
qed

subsection \<open>The coverage interpreter\<close>

lemma str_split_no_sep: "sep \<notin> set s \<Longrightarrow> str_split sep s = [s]"
  by (induction s) auto

lemma str_split_not_Nil: "str_split sep s \<noteq> []"
  by (induction s) (auto split: list.splits)

lemma str_split_sep: "sep \<in> set s \<Longrightarrow> \<exists>a b rest. str_split sep s = a # b # rest"
proof (induction s)
  case Nil then show ?case by simp
next
  case (Cons c cs)
  show ?case
  proof (cases "c = sep")
    case True
    then show ?thesis using str_split_not_Nil[of sep cs] by (cases "str_split sep cs") auto
  next
    case False
    with Cons show ?thesis by (auto split: list.splits)
  qed
qed

lemma parse_method_id_bracket:
  "CHR ''('' \<in> set f \<Longrightarrow> \<exists>x. parse_method_id f = Inr x"
  using str_split_sep[of "CHR ''(''" f]
  by (auto simp: parse_method_id_def Let_def)

lemma parse_method_id_no_bracket:
  "CHR ''('' \<notin> set f \<Longrightarrow> parse_method_id f = Inl IndexError"
  by (simp add: parse_method_id_def str_split_no_sep)

lemma methods_loop_numeric:
  "list_all (\<lambda>m. case counters m of [] \<Rightarrow> True | c # cs \<Rightarrow> covered c \<noteq> CoveredBad) ms \<Longrightarrow>
   methods_loop fm pre ms =
     Inr (\<exists>m \<in> set ms. method_name m = Some fm \<and> startswith (desc_of m) pre \<and> first_counter_covered m)"
proof (induction ms)
  case Nil
  then show ?case by simp
next
  case (Cons m ms)
  show ?case
  proof (cases "counters m")
    case Nil
    with Cons show ?thesis by (simp add: first_counter_covered_def)
  next
    case (Cons c cs)
    with Cons.prems have "covered c \<noteq> CoveredBad" by simp
    with Cons Cons.IH Cons.prems show ?thesis
      by (cases "covered c") (auto simp: first_counter_covered_def)
  qed
qed

lemma classes_loop_numeric:
  "first_counters_numeric root \<Longrightarrow>
   classes_loop icn fm pre root = Inr (first_class_covered first_counter_covered icn fm pre root)"
proof (induction root)
  case Nil
  then show ?case by (simp add: first_class_covered_def)
next
  case (Cons cls rest)
  then show ?case
    by (simp add: first_counters_numeric_def first_class_covered_def class_has_covered_def
        methods_loop_numeric)
qed

lemma query_prefix_amended: "query_prefix ps = amended_prefix ps"
  by (simp add: query_prefix_def amended_prefix_def claimed_prefix_def params_to_desc_prefix_spec)

lemma focal_loop_filter:
  "bracketed ids \<Longrightarrow> first_counters_numeric root \<Longrightarrow>
   focal_loop root ids acc = Inr (acc @ filter (reported_covered root) ids)"
proof (induction ids arbitrary: acc)
  case Nil
  then show ?case by simp
next
  case (Cons f rest)
  from Cons.prems have br: "bracketed rest" and "CHR ''('' \<in> set f"
    by (simp_all add: bracketed_def)
  then obtain x where x: "parse_method_id f = Inr x"
    using parse_method_id_bracket by blast
  show ?case
  proof (cases x)
    case None
    with x br Cons show ?thesis by (simp add: reported_covered_def well_named_def)
  next
    case (Some t)
    obtain c m ps where t: "t = (c, m, ps)" by (cases t)
    show ?thesis
      using x Some t br Cons.prems(2) Cons.IH
      by (simp add: reported_covered_def well_named_def covered_by_def classes_loop_numeric
          query_prefix_amended)
  qed
qed

lemma check_jacoco_coverage_filter:
  "bracketed ids \<Longrightarrow> first_counters_numeric root \<Longrightarrow>
   check_jacoco_coverage (Report root) ids = filter (reported_covered root) ids"
  by (simp add: check_jacoco_coverage_def focal_loop_filter)

lemma first_counter_is_instruction_counter:
  "list_all (\<lambda>c. counter_type c \<noteq> Some ''INSTRUCTION'') (tl (counters m)) \<Longrightarrow>
   instruction_counter_covered m = first_counter_covered m"
  by (cases "counters m")
     (auto simp: instruction_counter_covered_def first_counter_covered_def list_all_iff)

lemma class_has_covered_first:
  "list_all (\<lambda>m. list_all (\<lambda>c. counter_type c \<noteq> Some ''INSTRUCTION'') (tl (counters m))) (methods cls) \<Longrightarrow>
   class_has_covered instruction_counter_covered fm pre cls
     = class_has_covered first_counter_covered fm pre cls"
  using first_counter_is_instruction_counter
  by (auto simp: class_has_covered_def list_all_iff)

lemma first_class_covered_first:
  "instruction_first root \<Longrightarrow>
   first_class_covered instruction_counter_covered icn fm pre root
     = first_class_covered first_counter_covered icn fm pre root"
proof (induction root)
  case Nil
  then show ?case by (simp add: first_class_covered_def)
next
  case (Cons cls rest)
  then show ?case
    using class_has_covered_first[of cls fm pre]
    by (simp add: first_class_covered_def instruction_first_def)
qed

lemma reported_covered_amended:
  "instruction_first root \<Longrightarrow>
   reported_covered root f = (well_named f \<and> amended_covered root f)"
  by (auto simp: reported_covered_def amended_covered_def covered_by_def first_class_covered_first
      split: sum.splits option.splits)

lemma amended_covered_claimed:
  "has_params f \<Longrightarrow> amended_covered root f = claimed_covered root f"
  by (auto simp: amended_covered_def claimed_covered_def covered_by_def has_params_def
      amended_prefix_def split: sum.splits option.splits)

text \<open>
  Claim C4, as amended. Let every candidate of a query contain a bracket, and in the
  report let the \<^verbatim>\<open>covered\<close> attribute of the first counter of every method entry be
  absent or an integer. Then the result is the list of candidates, in order, that parse
  to a class name and a method name which are not empty and for which the first class
  entry named by the dot-to-slash class name has a method entry with that method name,
  with a descriptor that starts with the prefix, and whose first counter has the type
  \<^verbatim>\<open>INSTRUCTION\<close> and a covered count above 0. The prefix is a bracket, the type codes
  and a bracket for a candidate with parameters, and empty for a candidate without. On a
  report in which no method entry has an \<^verbatim>\<open>INSTRUCTION\<close> counter behind its first
  counter, as JaCoCo writes them, the first counter is the \<^verbatim>\<open>INSTRUCTION\<close> counter of
  the claim, and for a candidate with parameters the condition is the claim's as stated.
\<close>

theorem coverage_matching:
  assumes "bracketed ids" and "first_counters_numeric root"
  shows "check_jacoco_coverage (Report root) ids = filter (reported_covered root) ids
       \<and> (instruction_first root \<longrightarrow>
            (f \<in> set (check_jacoco_coverage (Report root) ids)
               \<longleftrightarrow> f \<in> set ids \<and> well_named f \<and> amended_covered root f))
       \<and> (instruction_first root \<and> has_params f \<longrightarrow>
            (f \<in> set (check_jacoco_coverage (Report root) ids)
               \<longleftrightarrow> f \<in> set ids \<and> well_named f \<and> claimed_covered root f))"
  using assms
  by (auto simp: check_jacoco_coverage_filter reported_covered_amended amended_covered_claimed)

text \<open>
  The report of the specification's example: class \<^verbatim>\<open>com/example/Foo\<close>, method
  \<^verbatim>\<open>bar\<close>, descriptor \<^verbatim>\<open>(I)V\<close>, covered with a count of 5 and not with a count of 0.
\<close>

theorem coverage_matching_witness:
  "bracketed [''com.example.Foo.bar(int)''] \<and> first_counters_numeric (foo_report 5)
   \<and> instruction_first (foo_report 5) \<and> has_params ''com.example.Foo.bar(int)''
   \<and> check_jacoco_coverage (Report (foo_report 5)) [''com.example.Foo.bar(int)'']
       = [''com.example.Foo.bar(int)'']
   \<and> well_named ''com.example.Foo.bar(int)''
   \<and> claimed_covered (foo_report 5) ''com.example.Foo.bar(int)''
   \<and> check_jacoco_coverage (Report (foo_report 0)) [''com.example.Foo.bar(int)''] = []
   \<and> \<not> claimed_covered (foo_report 0) ''com.example.Foo.bar(int)''"
proof -
  have b: "bracketed [''com.example.Foo.bar(int)'']" by (simp add: bracketed_def)
  have n: "first_counters_numeric (foo_report 5)"
    by (simp add: first_counters_numeric_def foo_report_def foo_method_def)
  have n0: "first_counters_numeric (foo_report 0)"
    by (simp add: first_counters_numeric_def foo_report_def foo_method_def)
  have i: "instruction_first (foo_report 5)"
    by (simp add: instruction_first_def foo_report_def foo_method_def)
  have i0: "instruction_first (foo_report 0)"
    by (simp add: instruction_first_def foo_report_def foo_method_def)
  have h: "has_params ''com.example.Foo.bar(int)''" by code_simp
  have c: "check_jacoco_coverage (Report (foo_report 5)) [''com.example.Foo.bar(int)'']
       = [''com.example.Foo.bar(int)'']" by code_simp
  have c0: "check_jacoco_coverage (Report (foo_report 0)) [''com.example.Foo.bar(int)''] = []"
    by code_simp
  from coverage_matching [OF b n, of "''com.example.Foo.bar(int)''"] i h c
  have w: "well_named ''com.example.Foo.bar(int)''
     \<and> claimed_covered (foo_report 5) ''com.example.Foo.bar(int)''"
    by simp
  from coverage_matching [OF b n0, of "''com.example.Foo.bar(int)''"] i0 h c0 w
  have "\<not> claimed_covered (foo_report 0) ''com.example.Foo.bar(int)''"
    by simp
  with b n i h c c0 w show ?thesis by blast
qed

text \<open>
  The claim as stated fails for a candidate without parameters, on a report of the shape
  JaCoCo writes: no descriptor of the class starts with \<^verbatim>\<open>()\<close>, so nothing in the report
  meets the condition of the claim for \<^verbatim>\<open>com.example.Foo.bar()\<close>, and the interpreter
  reports it covered through the entry with the descriptor \<^verbatim>\<open>(I)V\<close>.
\<close>

theorem coverage_matching_counterexample:
  "instruction_first (foo_report 5) \<and> first_counters_numeric (foo_report 5)
   \<and> claimed_prefix [] = ''()''
   \<and> \<not> claimed_covered (foo_report 5) ''com.example.Foo.bar()''
   \<and> ''com.example.Foo.bar()''
        \<in> set (check_jacoco_coverage (Report (foo_report 5)) [''com.example.Foo.bar()''])"
proof -
  have "instruction_first (foo_report 5)"
    by (simp add: instruction_first_def foo_report_def foo_method_def)
  moreover have "first_counters_numeric (foo_report 5)"
    by (simp add: first_counters_numeric_def foo_report_def foo_method_def)
  moreover have "claimed_prefix [] = ''()''"
    by (simp add: claimed_prefix_def declared_types_def)
  moreover have "\<not> claimed_covered (foo_report 5) ''com.example.Foo.bar()''" by code_simp
  moreover have "check_jacoco_coverage (Report (foo_report 5)) [''com.example.Foo.bar()'']
                   = [''com.example.Foo.bar()'']" by code_simp
  ultimately show ?thesis by simp
qed

text \<open>
  Claim C9, evaluated. A candidate without a dot before its bracket is skipped and the
  candidates after it are still looked up. A candidate without a bracket makes
  \<^verbatim>\<open>parse_method_id\<close> raise IndexError inside the \<^verbatim>\<open>try\<close> block of
  \<^verbatim>\<open>check_jacoco_coverage\<close>, which returns the empty list: the covered candidate before
  it is lost with it.
\<close>

theorem unparseable_candidate_discards_query:
  "check_jacoco_coverage (Report (foo_report 5)) [''com.example.Foo.bar(int)'']
     = [''com.example.Foo.bar(int)'']
   \<and> parse_method_id ''nobracket'' = Inl IndexError
   \<and> check_jacoco_coverage (Report (foo_report 5)) [''com.example.Foo.bar(int)'', ''nobracket'']
     = []
   \<and> check_jacoco_coverage (Report (foo_report 5)) [''bar(int)'', ''com.example.Foo.bar(int)'']
     = [''com.example.Foo.bar(int)'']"
proof -
  have "check_jacoco_coverage (Report (foo_report 5)) [''com.example.Foo.bar(int)'']
     = [''com.example.Foo.bar(int)'']" by code_simp
  moreover have "parse_method_id ''nobracket'' = Inl IndexError" by code_simp
  moreover have "check_jacoco_coverage (Report (foo_report 5))
     [''com.example.Foo.bar(int)'', ''nobracket''] = []" by code_simp
  moreover have "check_jacoco_coverage (Report (foo_report 5))
     [''bar(int)'', ''com.example.Foo.bar(int)''] = [''com.example.Foo.bar(int)'']" by code_simp
  ultimately show ?thesis by blast
qed

subsection \<open>The result accumulator\<close>

lemma upsert_present:
  "commit r \<in> commit ` set rs \<Longrightarrow> upsert r rs = rs[position (commit r) rs := r]"
  by (induction rs) (auto simp: position_def)

lemma upsert_absent:
  "commit r \<notin> commit ` set rs \<Longrightarrow> upsert r rs = rs @ [r]"
  by (induction rs) auto

lemma position_upsert:
  "position (commit r) (upsert r rs) = position (commit r) rs"
  by (induction rs) (auto simp: position_def)

lemma position_upsert_less:
  "position (commit r) (upsert r rs) < length (upsert r rs)"
  by (induction rs) (auto simp: position_def)

lemma upsert_at_position:
  "upsert r rs ! position (commit r) (upsert r rs) = r"
  by (induction rs) (auto simp: position_def)

lemma commits_upsert:
  "commit ` set (upsert r rs) = insert (commit r) (commit ` set rs)"
  by (induction rs) auto

lemma upsert_again:
  "commit r1 = commit r2 \<Longrightarrow>
   upsert r2 (upsert r1 rs) = (upsert r1 rs)[position (commit r1) (upsert r1 rs) := r2]"
  using upsert_present[of r2 "upsert r1 rs"] by (simp add: commits_upsert)

lemma distinct_upsert:
  "distinct (map commit rs) \<Longrightarrow> distinct (map commit (upsert r rs))"
proof (induction rs)
  case Nil
  then show ?case by simp
next
  case (Cons x xs)
  then show ?case
    using commits_upsert[of r xs] by (auto simp: image_iff)
qed

lemma append_result_writable:
  "results_writable s \<Longrightarrow>
   append_result name r s =
     (True, s\<lparr>results_files := (results_files s)(name := Results (upsert r (stored_results s name))),
              trace := trace s @ [ResultSaved name r]\<rparr>)"
  by (simp add: append_result_def stored_results_def Let_def)

text \<open>
  Claim C1. While the results directory can be written, \<^verbatim>\<open>append_result\<close> with a result
  \<^verbatim>\<open>r1\<close> and then with a result \<^verbatim>\<open>r2\<close> of the same commit identifier leaves a stored
  collection of the same length after the second call as after the first, and the second
  collection is the first with \<^verbatim>\<open>r2\<close> put in the place of \<^verbatim>\<open>r1\<close>, which is the place of
  the first entry with that identifier. A result whose identifier no stored entry has is
  appended at the end. A collection without two entries of one identifier stays so; a
  missing or unreadable file counts as the empty collection.
\<close>

theorem append_result_upsert:
  assumes "results_writable s" and "commit r1 = commit r2"
  shows "let s1 = snd (append_result name r1 s);
             s2 = snd (append_result name r2 s1);
             rs1 = stored_results s1 name;
             rs2 = stored_results s2 name;
             i = position (commit r1) rs1
         in results_files s1 name = Results rs1 \<and> results_files s2 name = Results rs2
            \<and> length rs2 = length rs1 \<and> i < length rs1 \<and> rs1 ! i = r1 \<and> rs2 = rs1[i := r2]
            \<and> (commit r1 \<notin> commit ` set (stored_results s name)
                 \<longrightarrow> rs1 = stored_results s name @ [r1])
            \<and> (distinct (map commit (stored_results s name))
                 \<longrightarrow> distinct (map commit rs1) \<and> distinct (map commit rs2))"
proof -
  define rs where "rs = stored_results s name"
  define s1 where "s1 = snd (append_result name r1 s)"
  define s2 where "s2 = snd (append_result name r2 s1)"
  have w1: "results_writable s1"
    using assms(1) by (simp add: s1_def append_result_writable)
  have f1: "results_files s1 name = Results (upsert r1 rs)"
    using assms(1) by (simp add: s1_def rs_def append_result_writable)
  then have st1: "stored_results s1 name = upsert r1 rs"
    by (simp add: stored_results_def)
  have f2: "results_files s2 name = Results (upsert r2 (upsert r1 rs))"
    using w1 st1 by (simp add: s2_def append_result_writable)
  then have st2: "stored_results s2 name = upsert r2 (upsert r1 rs)"
    by (simp add: stored_results_def)
  have again: "upsert r2 (upsert r1 rs) = (upsert r1 rs)[position (commit r1) (upsert r1 rs) := r2]"
    using assms(2) by (rule upsert_again)
  have d2: "distinct (map commit rs) \<Longrightarrow> distinct (map commit (upsert r2 (upsert r1 rs)))"
    by (simp add: distinct_upsert)
  show ?thesis
    unfolding Let_def s1_def[symmetric] s2_def[symmetric] rs_def[symmetric] st1 st2 f1 f2
    using again d2
    by (simp add: position_upsert_less upsert_at_position upsert_absent distinct_upsert)
qed

text \<open>
  A failed and then a successful result for the commit \<^verbatim>\<open>c1\<close>, written to an empty
  results directory: the successful one is all that is stored.
\<close>

theorem append_result_upsert_witness:
  "results_writable empty_sys
   \<and> commit (failed_result ''c1'' ''old_coverage_less_than_2'') = commit (success_result ''c1'' [] [])
   \<and> stored_results (snd (append_result ''p'' (success_result ''c1'' [] [])
        (snd (append_result ''p'' (failed_result ''c1'' ''old_coverage_less_than_2'') empty_sys)))) ''p''
      = [success_result ''c1'' [] []]"
proof -
  have w: "results_writable empty_sys" by (simp add: empty_sys_def)
  have c: "commit (failed_result ''c1'' ''old_coverage_less_than_2'') = commit (success_result ''c1'' [] [])"
    by (simp add: failed_result_def success_result_def)
  have e: "stored_results empty_sys ''p'' = []" by (simp add: stored_results_def empty_sys_def)
  from append_result_upsert [OF w c, of "''p''"] w c e
  show ?thesis
    by (simp add: Let_def position_def)
qed

subsection \<open>What the external actions leave alone\<close>

lemma kept_perform [simp]: "kept (snd (perform e a s)) = kept s"
  by (simp add: perform_def kept_def split: prod.splits)

lemma kept_perform_eq: "perform e a s = (r, s') \<Longrightarrow> kept s' = kept s"
  using kept_perform[of e a s] by simp

lemma kept_run_command: "run_command e cmd cwd s = (r, s') \<Longrightarrow> kept s' = kept s"
  unfolding run_command_def by (rule kept_perform_eq)

lemma kept_guarded [simp]: "kept (guarded e a s) = kept s"
  by (simp add: guarded_def)

lemma kept_prepare_pom [simp]: "kept (prepare_pom e project_path s) = kept s"
  by (simp add: prepare_pom_def Let_def)

lemma kept_new_tests_loop:
  "new_tests_loop e pp focals tests acc s = (r, s') \<Longrightarrow> kept s' = kept s"
proof (induction tests arbitrary: acc s)
  case Nil
  then show ?case by simp
next
  case (Cons t ts)
  obtain r1 s1 where c: "run_command e [''mvn'', ''clean''] pp s = (r1, s1)"
    by (cases "run_command e [''mvn'', ''clean''] pp s")
  then have k1: "kept s1 = kept s" by (rule kept_run_command)
  show ?case
  proof (cases r1)
    case (Inl err)
    with Cons.prems c k1 show ?thesis by simp
  next
    case (Inr cleaned)
    note r1 = this
    show ?thesis
    proof (cases "parse_method_id t")
      case (Inl err)
      with Cons.prems c r1 k1 show ?thesis by simp
    next
      case (Inr parsed)
      note p = this
      show ?thesis
      proof (cases parsed)
        case None
        with Cons.prems c r1 p have "new_tests_loop e pp focals ts acc s1 = (r, s')" by simp
        from Cons.IH[OF this] k1 show ?thesis by simp
      next
        case (Some triple)
        obtain tc tm ps where tr: "triple = (tc, tm, ps)" by (cases triple)
        show ?thesis
        proof (cases "tc = [] \<or> tm = []")
          case True
          with Cons.prems c r1 p Some tr
          have "new_tests_loop e pp focals ts acc s1 = (r, s')" by auto
          from Cons.IH[OF this] k1 show ?thesis by simp
        next
          case False
          define s2 where "s2 = guarded e (Rmtree (path_join (path_join pp ''target'') ''site'')) s1"
          have k2: "kept s2 = kept s" by (simp add: s2_def k1)
          obtain r3 s3 where t3: "run_command e (test_cmd tc tm) pp s2 = (r3, s3)"
            by (cases "run_command e (test_cmd tc tm) pp s2")
          then have k3: "kept s3 = kept s" using kept_run_command k2 by metis
          show ?thesis
          proof (cases r3)
            case (Inl err)
            with Cons.prems c r1 p Some tr False t3 k3 show ?thesis
              by (simp add: s2_def[symmetric])
          next
            case (Inr ok)
            note r3 = this
            show ?thesis
            proof (cases ok)
              case True
              with Cons.prems c r1 p Some tr False t3 r3
              have "new_tests_loop e pp focals ts
                      (record_pairs t
                         (check_jacoco_coverage (read_report e (jacoco_xml_path pp) (world s3)) focals)
                         acc) s3 = (r, s')"
                by (simp add: s2_def[symmetric])
              from Cons.IH[OF this] k3 show ?thesis by simp
            next
              case no: False
              with Cons.prems c r1 p Some tr False t3 r3
              have "new_tests_loop e pp focals ts acc s3 = (r, s')"
                by (simp add: s2_def[symmetric])
              from Cons.IH[OF this] k3 show ?thesis by simp
            qed
          qed
        qed
      qed
    qed
  qed
qed

lemma kept_old_tests_loop:
  "old_tests_loop e pp focals tests acc s = (r, s') \<Longrightarrow> kept s' = kept s"
proof (induction tests arbitrary: acc s)
  case Nil
  then show ?case by simp
next
  case (Cons t ts)
  show ?case
  proof (cases "parse_method_id t")
    case (Inl err)
    with Cons.prems show ?thesis by simp
  next
    case (Inr parsed)
    note p = this
    show ?thesis
    proof (cases parsed)
      case None
      with Cons.prems p have "old_tests_loop e pp focals ts acc s = (r, s')" by simp
      from Cons.IH[OF this] show ?thesis .
    next
      case (Some triple)
      obtain tc tm ps where tr: "triple = (tc, tm, ps)" by (cases triple)
      show ?thesis
      proof (cases "tc = [] \<or> tm = []")
        case True
        with Cons.prems p Some tr
        have "old_tests_loop e pp focals ts acc s = (r, s')" by auto
        from Cons.IH[OF this] show ?thesis .
      next
        case False
        obtain r1 s1 where t1: "run_command e (test_cmd tc tm) pp s = (r1, s1)"
          by (cases "run_command e (test_cmd tc tm) pp s")
        then have k1: "kept s1 = kept s" by (rule kept_run_command)
        show ?thesis
        proof (cases r1)
          case (Inl err)
          with Cons.prems p Some tr False t1 k1 show ?thesis by simp
        next
          case (Inr ok)
          note r1 = this
          show ?thesis
          proof (cases ok)
            case True
            with Cons.prems p Some tr False t1 r1
            have "old_tests_loop e pp focals ts
                    (record_pairs t
                       (check_jacoco_coverage (read_report e (jacoco_xml_path pp) (world s1)) focals)
                       acc) s1 = (r, s')"
              by simp
            from Cons.IH[OF this] k1 show ?thesis by simp
          next
            case no: False
            with Cons.prems p Some tr False t1 r1
            have "old_tests_loop e pp focals ts acc s1 = (r, s')" by simp
            from Cons.IH[OF this] k1 show ?thesis by simp
          qed
        qed
      qed
    qed
  qed
qed

lemma kept_new_tests: "new_tests e ci pp s = (r, s') \<Longrightarrow> kept s' = kept s"
  unfolding new_tests_def using kept_new_tests_loop kept_prepare_pom by metis

lemma kept_old_tests: "old_tests e ci pp s = (r, s') \<Longrightarrow> kept s' = kept s"
proof -
  assume a: "old_tests e ci pp s = (r, s')"
  obtain r1 s1 where c: "run_command e [''mvn'', ''clean''] pp s = (r1, s1)"
    by (cases "run_command e [''mvn'', ''clean''] pp s")
  then have k1: "kept s1 = kept s" by (rule kept_run_command)
  show ?thesis
  proof (cases r1)
    case (Inl err)
    with a c k1 show ?thesis by (simp add: old_tests_def)
  next
    case (Inr cleaned)
    with a c have "old_tests_loop e pp (old_focal_methods ci) (old_test_methods ci) ([], 0)
        (prepare_pom e pp s1) = (r, s')" by (simp add: old_tests_def)
    from kept_old_tests_loop[OF this] k1 show ?thesis by simp
  qed
qed

lemma kept_switch_to_new: "switch_to_new e c pp s = (r, s') \<Longrightarrow> kept s' = kept s"
  unfolding switch_to_new_def by (rule kept_run_command)

lemma kept_switch_to_old: "switch_to_old e c pp s = (r, s') \<Longrightarrow> kept s' = kept s"
  unfolding switch_to_old_def Let_def using kept_run_command kept_guarded by metis

lemma kept_fields:
  "kept s' = kept s \<Longrightarrow>
   progress_files s' = progress_files s \<and> progress_writable s' = progress_writable s \<and>
   results_files s' = results_files s \<and> results_writable s' = results_writable s"
  by (simp add: kept_def)

lemma kept_stored: "kept s' = kept s \<Longrightarrow> stored_results s' name = stored_results s name"
  by (simp add: kept_def stored_results_def)

lemma saved_results_filter:
  "saved_results (filter (\<lambda>ev. \<not> is_exec ev) tr) = saved_results tr"
proof (induction tr)
  case Nil
  then show ?case by simp
next
  case (Cons ev tr)
  then show ?case by (cases ev) (simp_all add: saved_results_def)
qed

lemma kept_saved: "kept s' = kept s \<Longrightarrow> saved_results (trace s') = saved_results (trace s)"
proof -
  assume "kept s' = kept s"
  then have "filter (\<lambda>ev. \<not> is_exec ev) (trace s') = filter (\<lambda>ev. \<not> is_exec ev) (trace s)"
    by (simp add: kept_def)
  then show ?thesis using saved_results_filter by metis
qed

lemma append_result_persist:
  "results_writable s \<Longrightarrow> append_result name r s = (True, persist name r s)"
  by (simp add: append_result_writable persist_def)

subsection \<open>The pair count is the length of the pair list\<close>

lemma new_tests_loop_inv:
  assumes step: "\<And>t cov a. Q a \<Longrightarrow> Q (record_pairs t cov a)"
  shows "Q acc \<Longrightarrow> new_tests_loop e pp focals tests acc s = (Inr acc', s') \<Longrightarrow> Q acc'"
proof (induction tests arbitrary: acc s)
  case Nil
  then show ?case by simp
next
  case (Cons t ts)
  obtain r1 s1 where c: "run_command e [''mvn'', ''clean''] pp s = (r1, s1)"
    by (cases "run_command e [''mvn'', ''clean''] pp s")
  show ?case
  proof (cases r1)
    case (Inl err)
    with Cons.prems c show ?thesis by simp
  next
    case (Inr cleaned)
    note r1 = this
    show ?thesis
    proof (cases "parse_method_id t")
      case (Inl err)
      with Cons.prems c r1 show ?thesis by simp
    next
      case (Inr parsed)
      note p = this
      show ?thesis
      proof (cases parsed)
        case None
        with Cons.prems c r1 p have "new_tests_loop e pp focals ts acc s1 = (Inr acc', s')" by simp
        from Cons.IH[OF Cons.prems(1) this] show ?thesis .
      next
        case (Some triple)
        obtain tc tm ps where tr: "triple = (tc, tm, ps)" by (cases triple)
        show ?thesis
        proof (cases "tc = [] \<or> tm = []")
          case True
          with Cons.prems c r1 p Some tr
          have "new_tests_loop e pp focals ts acc s1 = (Inr acc', s')" by auto
          from Cons.IH[OF Cons.prems(1) this] show ?thesis .
        next
          case False
          define s2 where "s2 = guarded e (Rmtree (path_join (path_join pp ''target'') ''site'')) s1"
          obtain r3 s3 where t3: "run_command e (test_cmd tc tm) pp s2 = (r3, s3)"
            by (cases "run_command e (test_cmd tc tm) pp s2")
          show ?thesis
          proof (cases r3)
            case (Inl err)
            with Cons.prems c r1 p Some tr False t3 show ?thesis
              by (simp add: s2_def[symmetric])
          next
            case (Inr ok)
            note r3 = this
            show ?thesis
            proof (cases ok)
              case True
              with Cons.prems c r1 p Some tr False t3 r3
              have "new_tests_loop e pp focals ts
                      (record_pairs t
                         (check_jacoco_coverage (read_report e (jacoco_xml_path pp) (world s3)) focals)
                         acc) s3 = (Inr acc', s')"
                by (simp add: s2_def[symmetric])
              from Cons.IH[OF step[OF Cons.prems(1)] this] show ?thesis .
            next
              case no: False
              with Cons.prems c r1 p Some tr False t3 r3
              have "new_tests_loop e pp focals ts acc s3 = (Inr acc', s')"
                by (simp add: s2_def[symmetric])
              from Cons.IH[OF Cons.prems(1) this] show ?thesis .
            qed
          qed
        qed
      qed
    qed
  qed
qed

lemma old_tests_loop_inv:
  assumes step: "\<And>t cov a. Q a \<Longrightarrow> Q (record_pairs t cov a)"
  shows "Q acc \<Longrightarrow> old_tests_loop e pp focals tests acc s = (Inr acc', s') \<Longrightarrow> Q acc'"
proof (induction tests arbitrary: acc s)
  case Nil
  then show ?case by simp
next
  case (Cons t ts)
  show ?case
  proof (cases "parse_method_id t")
    case (Inl err)
    with Cons.prems show ?thesis by simp
  next
    case (Inr parsed)
    note p = this
    show ?thesis
    proof (cases parsed)
      case None
      with Cons.prems p have "old_tests_loop e pp focals ts acc s = (Inr acc', s')" by simp
      from Cons.IH[OF Cons.prems(1) this] show ?thesis .
    next
      case (Some triple)
      obtain tc tm ps where tr: "triple = (tc, tm, ps)" by (cases triple)
      show ?thesis
      proof (cases "tc = [] \<or> tm = []")
        case True
        with Cons.prems p Some tr
        have "old_tests_loop e pp focals ts acc s = (Inr acc', s')" by auto
        from Cons.IH[OF Cons.prems(1) this] show ?thesis .
      next
        case False
        obtain r1 s1 where t1: "run_command e (test_cmd tc tm) pp s = (r1, s1)"
          by (cases "run_command e (test_cmd tc tm) pp s")
        show ?thesis
        proof (cases r1)
          case (Inl err)
          with Cons.prems p Some tr False t1 show ?thesis by simp
        next
          case (Inr ok)
          note r1 = this
          show ?thesis
          proof (cases ok)
            case True
            with Cons.prems p Some tr False t1 r1
            have "old_tests_loop e pp focals ts
                    (record_pairs t
                       (check_jacoco_coverage (read_report e (jacoco_xml_path pp) (world s1)) focals)
                       acc) s1 = (Inr acc', s')"
              by simp
            from Cons.IH[OF step[OF Cons.prems(1)] this] show ?thesis .
          next
            case no: False
            with Cons.prems p Some tr False t1 r1
            have "old_tests_loop e pp focals ts acc s1 = (Inr acc', s')" by simp
            from Cons.IH[OF Cons.prems(1) this] show ?thesis .
          qed
        qed
      qed
    qed
  qed
qed

lemma record_pairs_count:
  "snd a = int (length (fst a)) \<Longrightarrow>
   snd (record_pairs t cov a) = int (length (fst (record_pairs t cov a)))"
  by (simp add: record_pairs_def)

lemma new_tests_count:
  "new_tests e ci pp s = (Inr (found, n), s') \<Longrightarrow> n = int (length found)"
proof -
  assume "new_tests e ci pp s = (Inr (found, n), s')"
  then have l: "new_tests_loop e pp (new_focal_methods ci) (new_test_methods ci) ([], 0)
       (prepare_pom e pp s) = (Inr (found, n), s')" by (simp add: new_tests_def)
  have "snd (found, n) = int (length (fst (found, n)))"
    by (rule new_tests_loop_inv[where Q = "\<lambda>a. snd a = int (length (fst a))", OF _ _ l])
       (simp_all add: record_pairs_count)
  then show ?thesis by simp
qed

lemma old_tests_count:
  "old_tests e ci pp s = (Inr (found, n), s') \<Longrightarrow> n = int (length found)"
proof -
  assume a: "old_tests e ci pp s = (Inr (found, n), s')"
  obtain r1 s1 where c: "run_command e [''mvn'', ''clean''] pp s = (r1, s1)"
    by (cases "run_command e [''mvn'', ''clean''] pp s")
  show ?thesis
  proof (cases r1)
    case (Inl err)
    with a c show ?thesis by (simp add: old_tests_def)
  next
    case (Inr cleaned)
    with a c have l: "old_tests_loop e pp (old_focal_methods ci) (old_test_methods ci) ([], 0)
        (prepare_pom e pp s1) = (Inr (found, n), s')" by (simp add: old_tests_def)
    have "snd (found, n) = int (length (fst (found, n)))"
      by (rule old_tests_loop_inv[where Q = "\<lambda>a. snd a = int (length (fst a))", OF _ _ l])
         (simp_all add: record_pairs_count)
    then show ?thesis by simp
  qed
qed

subsection \<open>The outcomes of one verification\<close>

lemma driver_marks_filter:
  "driver_marks (filter (\<lambda>ev. \<not> is_exec ev) tr) = driver_marks tr"
proof (induction tr)
  case Nil
  then show ?case by simp
next
  case (Cons ev tr)
  then show ?case by (cases ev) (simp_all add: driver_marks_def)
qed

lemma kept_driver_kept: "kept s' = kept s \<Longrightarrow> driver_kept s' = driver_kept s"
proof -
  assume k: "kept s' = kept s"
  then have "filter (\<lambda>ev. \<not> is_exec ev) (trace s') = filter (\<lambda>ev. \<not> is_exec ev) (trace s)"
    by (simp add: kept_def)
  then have "driver_marks (trace s') = driver_marks (trace s)"
    using driver_marks_filter by metis
  with k show ?thesis by (simp add: driver_kept_def kept_def)
qed

lemma driver_kept_append_result [simp]:
  "driver_kept (snd (append_result name r s)) = driver_kept s"
  by (simp add: append_result_def driver_kept_def driver_marks_def Let_def)

lemma counts_rejected_inadmissible: "counts_rejected ci = inadmissible ci"
  by (auto simp: counts_rejected_def inadmissible_def method_sets_def)

lemma commit_failed_result: "commit (failed_result c why) = c"
  by (simp add: failed_result_def)

lemma commit_success_result: "commit (success_result c found_new found_old) = c"
  by (simp add: success_result_def)

lemma commit_error_result: "commit (error_result c err) = c"
  by (simp add: error_result_def)

lemma old_revision_cases:
  assumes "old_revision e ci pp name found_new s = (r, s')"
  shows "(\<exists>err. r = Inl err \<and> kept s' = kept s)
       \<or> (\<exists>b res s2. r = Inr b \<and> kept s2 = kept s \<and> s' = snd (append_result name res s2)
              \<and> commit res = sha1 ci)"
proof -
  obtain r1 s1 where sw: "switch_to_old e (sha1 ci) pp s = (r1, s1)"
    by (cases "switch_to_old e (sha1 ci) pp s")
  then have k1: "kept s1 = kept s" by (rule kept_switch_to_old)
  show ?thesis
  proof (cases r1)
    case (Inl err)
    with assms sw k1 show ?thesis by (auto simp: old_revision_def)
  next
    case (Inr ok)
    note r1 = this
    show ?thesis
    proof (cases ok)
      case False
      with assms sw r1 have "r = Inr False"
        and "s' = snd (append_result name (failed_result (sha1 ci) ''failed_to_switch_to_prev_commit'') s1)"
        by (simp_all add: old_revision_def)
      with k1 show ?thesis using commit_failed_result by blast
    next
      case True
      obtain r2 s2 where ot: "old_tests e ci pp s1 = (r2, s2)"
        by (cases "old_tests e ci pp s1")
      then have k2: "kept s2 = kept s" using kept_old_tests k1 by metis
      show ?thesis
      proof (cases r2)
        case (Inl err)
        with assms sw r1 True ot k2 show ?thesis by (auto simp: old_revision_def)
      next
        case (Inr acc)
        obtain found_old n_old where acc: "acc = (found_old, n_old)" by (cases acc)
        show ?thesis
        proof (cases "n_old < 2")
          case low: True
          with assms sw r1 True ot Inr acc have "r = Inr False"
            and "s' = snd (append_result name (failed_result (sha1 ci) ''old_coverage_less_than_2'') s2)"
            by (simp_all add: old_revision_def)
          with k2 show ?thesis using commit_failed_result by blast
        next
          case enough: False
          with assms sw r1 True ot Inr acc have "r = Inr True"
            and "s' = snd (append_result name (success_result (sha1 ci) found_new found_old) s2)"
            by (simp_all add: old_revision_def)
          with k2 show ?thesis using commit_success_result by blast
        qed
      qed
    qed
  qed
qed

lemma verification_cases:
  assumes "verification e ci pp name s = (r, s')"
  shows "(\<exists>err. r = Inl err \<and> kept s' = kept s)
       \<or> (r = Inr False \<and> kept s' = kept s \<and> fst (switch_to_new e (sha1 ci) pp s) = Inr False)
       \<or> (\<exists>b res s2. r = Inr b \<and> kept s2 = kept s \<and> s' = snd (append_result name res s2)
              \<and> commit res = sha1 ci)"
proof -
  obtain r1 s1 where sw: "switch_to_new e (sha1 ci) pp s = (r1, s1)"
    by (cases "switch_to_new e (sha1 ci) pp s")
  then have k1: "kept s1 = kept s" by (rule kept_switch_to_new)
  show ?thesis
  proof (cases r1)
    case (Inl err)
    with assms sw k1 show ?thesis by (auto simp: verification_def)
  next
    case (Inr ok)
    note r1 = this
    show ?thesis
    proof (cases ok)
      case False
      with assms sw r1 k1 show ?thesis by (auto simp: verification_def)
    next
      case True
      obtain r2 s2 where nt: "new_tests e ci pp s1 = (r2, s2)"
        by (cases "new_tests e ci pp s1")
      then have k2: "kept s2 = kept s" using kept_new_tests k1 by metis
      show ?thesis
      proof (cases r2)
        case (Inl err)
        with assms sw r1 True nt k2 show ?thesis by (auto simp: verification_def)
      next
        case (Inr acc)
        obtain found_new n_new where acc: "acc = (found_new, n_new)" by (cases acc)
        show ?thesis
        proof (cases "n_new < 2")
          case low: True
          with assms sw r1 True nt Inr acc have "r = Inr False"
            and "s' = snd (append_result name (failed_result (sha1 ci) ''new_coverage_less_than_2'') s2)"
            by (simp_all add: verification_def)
          with k2 show ?thesis using commit_failed_result by blast
        next
          case enough: False
          with assms sw r1 True nt Inr acc
          have "old_revision e ci pp name found_new s2 = (r, s')"
            by (simp add: verification_def)
          from old_revision_cases[OF this] k2 show ?thesis by metis
        qed
      qed
    qed
  qed
qed

lemma driver_kept_verification:
  "verification e ci pp name s = (r, s') \<Longrightarrow> driver_kept s' = driver_kept s"
  using verification_cases[of e ci pp name s r s'] kept_driver_kept
  by (metis driver_kept_append_result)

lemma driver_kept_process_single_commit:
  "driver_kept (snd (process_single_commit e ci pp name s)) = driver_kept s"
proof -
  obtain r s1 where v: "verification e ci pp name s = (r, s1)"
    by (cases "verification e ci pp name s")
  then have "driver_kept s1 = driver_kept s" by (rule driver_kept_verification)
  with v show ?thesis
    by (cases r) (simp_all add: process_single_commit_def)
qed

subsection \<open>The admission filter\<close>

text \<open>
  Claim C6, as amended. For a commit in which one of the four method sets has 40 or more
  entries or is empty, the verifier returns with the state as it found it: no external
  action, no file written. What it returns is \<^verbatim>\<open>False\<close>, unless the identifier of the
  commit is in the persisted list of processed commits: that test comes first in the
  source, and then it returns \<^verbatim>\<open>True\<close>.
\<close>

theorem admission_filter:
  assumes "inadmissible ci"
  shows "process_single_commit e ci pp name s = (is_commit_processed name (sha1 ci) s, s)"
  using assms by (simp add: process_single_commit_def counts_rejected_inadmissible)

text \<open>
  A commit with 41 new test methods, not processed before: rejected, with an empty trace.
\<close>

theorem admission_filter_witness:
  "inadmissible crowded_commit \<and> \<not> is_commit_processed ''p'' (sha1 crowded_commit) empty_sys
   \<and> fst (process_single_commit (fixed_env (Report two_methods_report) []) crowded_commit
        ''/repo'' ''p'' empty_sys) = False
   \<and> trace (snd (process_single_commit (fixed_env (Report two_methods_report) []) crowded_commit
        ''/repo'' ''p'' empty_sys)) = []"
proof -
  have i: "inadmissible crowded_commit"
    by (simp add: inadmissible_def method_sets_def crowded_commit_def sample_commit_def)
  have n: "\<not> is_commit_processed ''p'' (sha1 crowded_commit) empty_sys"
    by (simp add: is_commit_processed_def load_progress_def empty_sys_def fresh_progress_def)
  have t: "trace empty_sys = []" by (simp add: empty_sys_def)
  from admission_filter [OF i, of "fixed_env (Report two_methods_report) []" "''/repo''" "''p''" empty_sys]
    i n t
  show ?thesis by simp
qed

text \<open>
  The claim as stated fails for a commit that is recorded as processed: with 41 new test
  methods it is still reported as a success.
\<close>

theorem admission_filter_counterexample:
  "inadmissible crowded_commit
   \<and> fst (process_single_commit (fixed_env (Report two_methods_report) []) crowded_commit
        ''/repo'' ''p'' done_sys) = True"
proof -
  have i: "inadmissible crowded_commit"
    by (simp add: inadmissible_def method_sets_def crowded_commit_def sample_commit_def)
  have "is_commit_processed ''p'' (sha1 crowded_commit) done_sys"
    by (simp add: is_commit_processed_def load_progress_def done_sys_def done_progress_def
        empty_sys_def crowded_commit_def sample_commit_def)
  then have "fst (process_single_commit (fixed_env (Report two_methods_report) []) crowded_commit
        ''/repo'' ''p'' done_sys) = True"
    by (simp add: process_single_commit_def)
  with i show ?thesis by blast
qed

subsection \<open>One result for each verification\<close>

lemma persist_results:
  "kept s2 = kept s \<Longrightarrow> results_writable s \<Longrightarrow>
   results_files (snd (append_result name res s2))
     = (results_files s)(name := Results (upsert res (stored_results s name)))
   \<and> saved_results (trace (snd (append_result name res s2)))
     = saved_results (trace s) @ [(name, res)]"
proof -
  assume k: "kept s2 = kept s" and w: "results_writable s"
  from k w have w2: "results_writable s2" by (simp add: kept_def)
  from k have f: "results_files s2 = results_files s" by (simp add: kept_def)
  have sv: "saved_results (trace s2) = saved_results (trace s)" using k by (rule kept_saved)
  show ?thesis
    using w2 f sv kept_stored[OF k, of name]
    by (simp add: append_result_persist persist_def saved_results_def)
qed

text \<open>
  Claim C8, as amended. With a writable results directory, an invocation of the verifier
  on a commit that is recorded as processed, or that the count check rejects, persists
  nothing and leaves the state as it found it. An invocation on any other commit whose
  first checkout does not report failure persists exactly one result, which carries the
  identifier of the commit and is put into the stored collection by \<^verbatim>\<open>upsert\<close>, whether
  the invocation ends in a gate, in a failed second checkout, in an exception or in
  success.
\<close>

theorem one_result_per_verification:
  assumes "results_writable s"
  shows "(is_commit_processed name (sha1 ci) s \<or> counts_rejected ci
            \<longrightarrow> snd (process_single_commit e ci pp name s) = s)
       \<and> (\<not> is_commit_processed name (sha1 ci) s \<and> \<not> counts_rejected ci
            \<and> fst (switch_to_new e (sha1 ci) pp s) \<noteq> Inr False
            \<longrightarrow> (\<exists>res. commit res = sha1 ci
                  \<and> saved_results (trace (snd (process_single_commit e ci pp name s)))
                      = saved_results (trace s) @ [(name, res)]
                  \<and> results_files (snd (process_single_commit e ci pp name s))
                      = (results_files s)(name := Results (upsert res (stored_results s name)))))"
proof (intro conjI impI)
  assume "is_commit_processed name (sha1 ci) s \<or> counts_rejected ci"
  then show "snd (process_single_commit e ci pp name s) = s"
    by (auto simp: process_single_commit_def)
next
  assume a: "\<not> is_commit_processed name (sha1 ci) s \<and> \<not> counts_rejected ci
            \<and> fst (switch_to_new e (sha1 ci) pp s) \<noteq> Inr False"
  obtain r s1 where v: "verification e ci pp name s = (r, s1)"
    by (cases "verification e ci pp name s")
  let ?s' = "snd (process_single_commit e ci pp name s)"
  from verification_cases[OF v] a
  consider (raised) err where "r = Inl err" "kept s1 = kept s"
    | (returned) b res s2 where "r = Inr b" "kept s2 = kept s"
        "s1 = snd (append_result name res s2)" "commit res = sha1 ci"
    by blast
  then show "\<exists>res. commit res = sha1 ci
       \<and> saved_results (trace ?s') = saved_results (trace s) @ [(name, res)]
       \<and> results_files ?s' = (results_files s)(name := Results (upsert res (stored_results s name)))"
  proof cases
    case raised
    with v a have "?s' = snd (append_result name (error_result (sha1 ci) err) s1)"
      by (simp add: process_single_commit_def)
    with persist_results[OF raised(2) assms, of name "error_result (sha1 ci) err"]
    show ?thesis using commit_error_result by metis
  next
    case returned
    with v a have "?s' = snd (append_result name res s2)"
      by (simp add: process_single_commit_def)
    with persist_results[OF returned(2) assms, of name res] returned(4)
    show ?thesis by metis
  qed
qed

text \<open>
  The claim as stated fails for a commit the count check rejects: no result is written for
  it.
\<close>

theorem one_result_per_verification_counterexample:
  "\<not> is_commit_processed ''p'' (sha1 crowded_commit) empty_sys
   \<and> saved_results (trace (snd (process_single_commit (fixed_env (Report two_methods_report) [])
        crowded_commit ''/repo'' ''p'' empty_sys))) = []
   \<and> results_files (snd (process_single_commit (fixed_env (Report two_methods_report) [])
        crowded_commit ''/repo'' ''p'' empty_sys)) ''p'' = NoResults"
proof -
  have i: "counts_rejected crowded_commit"
    by (simp add: counts_rejected_def crowded_commit_def sample_commit_def)
  have n: "\<not> is_commit_processed ''p'' (sha1 crowded_commit) empty_sys"
    by (simp add: is_commit_processed_def load_progress_def empty_sys_def fresh_progress_def)
  have "process_single_commit (fixed_env (Report two_methods_report) [])
        crowded_commit ''/repo'' ''p'' empty_sys = (False, empty_sys)"
    using i n by (simp add: process_single_commit_def)
  with n show ?thesis by (simp add: empty_sys_def saved_results_def)
qed

subsection \<open>The two coverage gates\<close>

lemma stored_results_persist:
  "stored_results (persist name r s) name = upsert r (stored_results s name)"
  by (simp add: persist_def stored_results_def)

text \<open>
  Claim C2. Take a commit that is not recorded as processed and passes the count check,
  a writable results directory, a first checkout that succeeds and a new-revision phase
  that ends without an exception with the pairs \<^verbatim>\<open>found_new\<close>; the count the source
  keeps beside the list is its length. With fewer than 2 pairs the verifier returns
  \<^verbatim>\<open>False\<close> from the state the new-revision phase left, with the one result
  \<^verbatim>\<open>failed\<close>, \<^verbatim>\<open>new_coverage_less_than_2\<close> and two empty pair lists persisted: nothing of
  the old-revision phase has run. With 2 pairs or more, a second checkout that succeeds
  and an old-revision phase that ends with the pairs \<^verbatim>\<open>found_old\<close>, the verifier
  persists \<^verbatim>\<open>failed\<close>, \<^verbatim>\<open>old_coverage_less_than_2\<close> and two empty pair lists when
  \<^verbatim>\<open>found_old\<close> has fewer than 2 pairs, and otherwise returns \<^verbatim>\<open>True\<close> and persists
  \<^verbatim>\<open>success\<close> with exactly \<^verbatim>\<open>found_new\<close> and \<^verbatim>\<open>found_old\<close>.
\<close>

theorem threshold_gates:
  assumes "\<not> is_commit_processed name (sha1 ci) s" and "\<not> counts_rejected ci"
    and "results_writable s"
    and "switch_to_new e (sha1 ci) pp s = (Inr True, s1)"
    and "new_tests e ci pp s1 = (Inr (found_new, n_new), s2)"
  shows "n_new = int (length found_new)
       \<and> stored_results s2 name = stored_results s name
       \<and> (length found_new < 2 \<longrightarrow>
            process_single_commit e ci pp name s
              = (False, persist name \<lparr>commit = sha1 ci, new_pairs = [], old_pairs = [],
                         status = ''failed'', reason = Some ''new_coverage_less_than_2'',
                         error_message = None\<rparr> s2))
       \<and> (2 \<le> length found_new \<longrightarrow>
            (\<forall>s3 found_old n_old s4.
               switch_to_old e (sha1 ci) pp s2 = (Inr True, s3) \<longrightarrow>
               old_tests e ci pp s3 = (Inr (found_old, n_old), s4) \<longrightarrow>
               n_old = int (length found_old)
               \<and> stored_results s4 name = stored_results s name
               \<and> process_single_commit e ci pp name s
                   = (if length found_old < 2
                      then (False, persist name \<lparr>commit = sha1 ci, new_pairs = [], old_pairs = [],
                         status = ''failed'', reason = Some ''old_coverage_less_than_2'',
                         error_message = None\<rparr> s4)
                      else (True, persist name \<lparr>commit = sha1 ci, new_pairs = found_new, old_pairs = found_old,
                         status = ''success'', reason = None,
                         error_message = None\<rparr> s4))))"
proof -
  have n: "n_new = int (length found_new)" using assms(5) by (rule new_tests_count)
  have k1: "kept s1 = kept s" using assms(4) by (rule kept_switch_to_new)
  have k2: "kept s2 = kept s" using kept_new_tests[OF assms(5)] k1 by simp
  have w2: "results_writable s2" using k2 assms(3) by (simp add: kept_def)
  have st2: "stored_results s2 name = stored_results s name" using k2 by (rule kept_stored)
  have low: "process_single_commit e ci pp name s
              = (False, persist name \<lparr>commit = sha1 ci, new_pairs = [], old_pairs = [],
                         status = ''failed'', reason = Some ''new_coverage_less_than_2'',
                         error_message = None\<rparr> s2)"
    if "length found_new < 2"
    using that assms n w2
    by (simp add: process_single_commit_def verification_def append_result_persist
        failed_result_def)
  have high: "n_old = int (length found_old)
               \<and> stored_results s4 name = stored_results s name
               \<and> process_single_commit e ci pp name s
                   = (if length found_old < 2
                      then (False, persist name \<lparr>commit = sha1 ci, new_pairs = [], old_pairs = [],
                         status = ''failed'', reason = Some ''old_coverage_less_than_2'',
                         error_message = None\<rparr> s4)
                      else (True, persist name \<lparr>commit = sha1 ci, new_pairs = found_new, old_pairs = found_old,
                         status = ''success'', reason = None,
                         error_message = None\<rparr> s4))"
    if h: "2 \<le> length found_new" and so: "switch_to_old e (sha1 ci) pp s2 = (Inr True, s3)"
      and ot: "old_tests e ci pp s3 = (Inr (found_old, n_old), s4)"
    for s3 found_old n_old s4
  proof -
    have m: "n_old = int (length found_old)" using ot by (rule old_tests_count)
    have k3: "kept s3 = kept s" using kept_switch_to_old[OF so] k2 by simp
    have k4: "kept s4 = kept s" using kept_old_tests[OF ot] k3 by simp
    have w4: "results_writable s4" using k4 assms(3) by (simp add: kept_def)
    have st4: "stored_results s4 name = stored_results s name" using k4 by (rule kept_stored)
    have "process_single_commit e ci pp name s
            = (if length found_old < 2
               then (False, persist name \<lparr>commit = sha1 ci, new_pairs = [], old_pairs = [],
                         status = ''failed'', reason = Some ''old_coverage_less_than_2'',
                         error_message = None\<rparr> s4)
               else (True, persist name \<lparr>commit = sha1 ci, new_pairs = found_new, old_pairs = found_old,
                         status = ''success'', reason = None,
                         error_message = None\<rparr> s4))"
      using h assms n m so ot w4
      by (simp add: process_single_commit_def verification_def old_revision_def
          append_result_persist failed_result_def success_result_def)
    with m st4 show ?thesis by simp
  qed
  from n st2 low high show ?thesis by blast
qed

lemma sample_switch_to_new:
  "switch_to_new sample_env ''c1'' ''/repo'' empty_sys
     = (Inr True, snd (switch_to_new sample_env ''c1'' ''/repo'' empty_sys))"
  by (simp add: switch_to_new_def run_command_def perform_def sample_env_def fixed_env_def)

lemma sample_new_tests:
  "fst (new_tests sample_env sample_commit ''/repo''
          (snd (switch_to_new sample_env ''c1'' ''/repo'' empty_sys)))
     = Inr (sample_pairs, 2)"
  by code_simp

lemma sample_old_tests:
  "fst (old_tests sample_env sample_commit ''/repo''
          (snd (switch_to_old sample_env ''c1'' ''/repo''
             (snd (new_tests sample_env sample_commit ''/repo''
                (snd (switch_to_new sample_env ''c1'' ''/repo'' empty_sys)))))))
     = Inr (sample_pairs, 2)"
  by code_simp

lemma sample_admitted:
  "\<not> is_commit_processed ''p'' (sha1 sample_commit) empty_sys \<and> \<not> counts_rejected sample_commit
   \<and> results_writable empty_sys \<and> sha1 sample_commit = ''c1''
   \<and> stored_results empty_sys ''p'' = []"
  by (simp add: is_commit_processed_def load_progress_def empty_sys_def fresh_progress_def
      counts_rejected_def sample_commit_def stored_results_def)

lemma one_pair_new_tests:
  "fst (new_tests one_method_env sample_commit ''/repo''
          (snd (switch_to_new one_method_env ''c1'' ''/repo'' empty_sys)))
     = Inr ([bar_pair], 1)"
  by code_simp

lemma exec_trace_persist: "filter is_exec (trace (persist name r s)) = filter is_exec (trace s)"
  by (simp add: persist_def)

text \<open>
  One test method and two focal methods: a report that covers both focal methods gives two
  pairs in each phase and a stored success; a report that covers one of them gives one pair
  and a stored failure, with no action after the new-revision phase.
\<close>

theorem threshold_gates_witness:
  "\<not> is_commit_processed ''p'' (sha1 sample_commit) empty_sys \<and> \<not> counts_rejected sample_commit
   \<and> results_writable empty_sys
   \<and> fst (process_single_commit sample_env sample_commit ''/repo'' ''p'' empty_sys) = True
   \<and> stored_results (snd (process_single_commit sample_env sample_commit ''/repo'' ''p'' empty_sys)) ''p''
       = [\<lparr>commit = ''c1'',
           new_pairs =
           [\<lparr>test_method_id = ''com.example.FooTest.testBar()'', focal_method_id = ''com.example.Foo.bar(int)''\<rparr>,
            \<lparr>test_method_id = ''com.example.FooTest.testBar()'', focal_method_id = ''com.example.Foo.baz()''\<rparr>],
           old_pairs =
           [\<lparr>test_method_id = ''com.example.FooTest.testBar()'', focal_method_id = ''com.example.Foo.bar(int)''\<rparr>,
            \<lparr>test_method_id = ''com.example.FooTest.testBar()'', focal_method_id = ''com.example.Foo.baz()''\<rparr>],
           status = ''success'', reason = None, error_message = None\<rparr>]
   \<and> fst (new_tests one_method_env sample_commit ''/repo''
          (snd (switch_to_new one_method_env ''c1'' ''/repo'' empty_sys))) = Inr ([bar_pair], 1)
   \<and> fst (process_single_commit one_method_env sample_commit ''/repo'' ''p'' empty_sys) = False
   \<and> stored_results (snd (process_single_commit one_method_env sample_commit ''/repo'' ''p'' empty_sys)) ''p''
       = [\<lparr>commit = ''c1'', new_pairs = [], old_pairs = [], status = ''failed'',
           reason = Some ''new_coverage_less_than_2'', error_message = None\<rparr>]
   \<and> filter is_exec (trace (snd (process_single_commit one_method_env sample_commit ''/repo'' ''p'' empty_sys)))
       = filter is_exec (trace (snd (new_tests one_method_env sample_commit ''/repo''
          (snd (switch_to_new one_method_env ''c1'' ''/repo'' empty_sys)))))"
proof -
  let ?s1 = "snd (switch_to_new sample_env ''c1'' ''/repo'' empty_sys)"
  let ?s2 = "snd (new_tests sample_env sample_commit ''/repo'' ?s1)"
  let ?s3 = "snd (switch_to_old sample_env ''c1'' ''/repo'' ?s2)"
  let ?s4 = "snd (old_tests sample_env sample_commit ''/repo'' ?s3)"
  let ?t1 = "snd (switch_to_new one_method_env ''c1'' ''/repo'' empty_sys)"
  let ?t2 = "snd (new_tests one_method_env sample_commit ''/repo'' ?t1)"
  note a = sample_admitted
  have h1: "\<not> is_commit_processed ''p'' (sha1 sample_commit) empty_sys" using a by blast
  have h2: "\<not> counts_rejected sample_commit" using a by blast
  have h3: "results_writable empty_sys" using a by blast
  have sha: "sha1 sample_commit = ''c1''" using a by blast
  have e: "stored_results empty_sys ''p'' = []" using a by blast
  have h4: "switch_to_new sample_env (sha1 sample_commit) ''/repo'' empty_sys = (Inr True, ?s1)"
    using sample_switch_to_new by (simp add: sha)
  have h5: "new_tests sample_env sample_commit ''/repo'' ?s1 = (Inr (sample_pairs, 2), ?s2)"
    using sample_new_tests by (simp add: prod_eq_iff)
  have h6: "switch_to_old sample_env (sha1 sample_commit) ''/repo'' ?s2 = (Inr True, ?s3)"
    by (simp add: sha prod_eq_iff Let_def switch_to_old_def run_command_def perform_def sample_env_def
        fixed_env_def guarded_def)
  have h7: "old_tests sample_env sample_commit ''/repo'' ?s3 = (Inr (sample_pairs, 2), ?s4)"
    using sample_old_tests by (simp add: prod_eq_iff)
  have l: "length sample_pairs = 2" by (simp add: sample_pairs_def)
  from threshold_gates [OF h1 h2 h3 h4 h5] l
  have "\<forall>s3 found_old n_old s4.
          switch_to_old sample_env (sha1 sample_commit) ''/repo'' ?s2 = (Inr True, s3) \<longrightarrow>
          old_tests sample_env sample_commit ''/repo'' s3 = (Inr (found_old, n_old), s4) \<longrightarrow>
          n_old = int (length found_old)
          \<and> stored_results s4 ''p'' = stored_results empty_sys ''p''
          \<and> process_single_commit sample_env sample_commit ''/repo'' ''p'' empty_sys
              = (if length found_old < 2
                 then (False, persist ''p'' \<lparr>commit = sha1 sample_commit, new_pairs = [], old_pairs = [],
                         status = ''failed'', reason = Some ''old_coverage_less_than_2'',
                         error_message = None\<rparr> s4)
                 else (True, persist ''p'' \<lparr>commit = sha1 sample_commit, new_pairs = sample_pairs, old_pairs = found_old,
                         status = ''success'', reason = None,
                         error_message = None\<rparr> s4))"
    by simp
  with h6 h7
  have "stored_results ?s4 ''p'' = stored_results empty_sys ''p''
        \<and> process_single_commit sample_env sample_commit ''/repo'' ''p'' empty_sys
              = (if length sample_pairs < 2
                 then (False, persist ''p'' \<lparr>commit = sha1 sample_commit, new_pairs = [], old_pairs = [],
                         status = ''failed'', reason = Some ''old_coverage_less_than_2'',
                         error_message = None\<rparr> ?s4)
                 else (True, persist ''p'' \<lparr>commit = sha1 sample_commit, new_pairs = sample_pairs, old_pairs = sample_pairs,
                         status = ''success'', reason = None,
                         error_message = None\<rparr> ?s4))"
    by blast
  with l sha e have "stored_results ?s4 ''p'' = []"
    and "process_single_commit sample_env sample_commit ''/repo'' ''p'' empty_sys
           = (True, persist ''p'' \<lparr>commit = ''c1'', new_pairs = sample_pairs, old_pairs = sample_pairs,
                         status = ''success'', reason = None,
                         error_message = None\<rparr> ?s4)"
    by simp_all
  then have both: "fst (process_single_commit sample_env sample_commit ''/repo'' ''p'' empty_sys) = True
     \<and> stored_results (snd (process_single_commit sample_env sample_commit ''/repo'' ''p'' empty_sys)) ''p''
       = [\<lparr>commit = ''c1'', new_pairs = sample_pairs, old_pairs = sample_pairs,
                         status = ''success'', reason = None,
                         error_message = None\<rparr>]"
    by (simp add: stored_results_persist)
  have g4: "switch_to_new one_method_env (sha1 sample_commit) ''/repo'' empty_sys = (Inr True, ?t1)"
    by (simp add: sha prod_eq_iff switch_to_new_def run_command_def perform_def one_method_env_def
        fixed_env_def)
  have g5: "new_tests one_method_env sample_commit ''/repo'' ?t1 = (Inr ([bar_pair], 1), ?t2)"
    using one_pair_new_tests by (simp add: prod_eq_iff)
  from threshold_gates [OF h1 h2 h3 g4 g5]
  have "stored_results ?t2 ''p'' = stored_results empty_sys ''p''"
    and "process_single_commit one_method_env sample_commit ''/repo'' ''p'' empty_sys
           = (False, persist ''p'' \<lparr>commit = sha1 sample_commit, new_pairs = [], old_pairs = [],
                         status = ''failed'', reason = Some ''new_coverage_less_than_2'',
                         error_message = None\<rparr> ?t2)"
    by simp_all
  then have one: "fst (process_single_commit one_method_env sample_commit ''/repo'' ''p'' empty_sys) = False
     \<and> stored_results (snd (process_single_commit one_method_env sample_commit ''/repo'' ''p'' empty_sys)) ''p''
         = [\<lparr>commit = ''c1'', new_pairs = [], old_pairs = [],
                         status = ''failed'', reason = Some ''new_coverage_less_than_2'',
                         error_message = None\<rparr>]
     \<and> filter is_exec (trace (snd (process_single_commit one_method_env sample_commit ''/repo'' ''p'' empty_sys)))
         = filter is_exec (trace ?t2)"
    using e sha by (simp add: stored_results_persist exec_trace_persist)
  from both one one_pair_new_tests h1 h2 h3 show ?thesis
    by (simp add: sample_pairs_def)
qed

subsection \<open>The batch driver's loop\<close>

lemma driver_kept_save_progress:
  "driver_kept (snd (save_progress name p s))
     = (if progress_writable s
        then ((progress_files s)(name := Progress p), True,
              driver_marks (trace s) @ [Cursor (current_index p)])
        else driver_kept s)"
  by (simp add: save_progress_def driver_kept_def driver_marks_def)

lemma py_index_in_range:
  "0 \<le> i \<Longrightarrow> i < int (length xs) \<Longrightarrow> py_index xs i = Inr (xs ! nat i)"
  by (simp add: py_index_def)

lemma commit_step_marks:
  assumes "0 \<le> i" and "i < int (length cd)"
  shows "\<exists>p' s'. commit_step e cd pp name i (p, s) = Inr (p', s')
           \<and> progress_writable s' = progress_writable s
           \<and> driver_marks (trace s') = driver_marks (trace s) @ step_marks (progress_writable s) i
           \<and> current_index p' = i \<and> progress_status p' = progress_status p
           \<and> processed_commits p' = processed_commits p @ [sha1 (cd ! nat i)]"
proof -
  define ci where "ci = cd ! nat i"
  define p1 where "p1 = p\<lparr>current_index := i\<rparr>"
  define s1 where "s1 = snd (save_progress name p1 s)"
  define s2 where "s2 = s1\<lparr>trace := trace s1 @ [Verify i (sha1 ci)]\<rparr>"
  define outcome where "outcome = process_single_commit e ci pp name s2"
  define p2 where "p2 = (if fst outcome then p1\<lparr>successful_commits := successful_commits p1 + 1\<rparr> else p1)"
  define p3 where "p3 = p2\<lparr>processed_commits := processed_commits p2 @ [sha1 ci]\<rparr>"
  define s3 where "s3 = snd (save_progress name p3 (snd outcome))"
  have step: "commit_step e cd pp name i (p, s) = Inr (p3, s3)"
    using assms
    by (simp add: commit_step_def py_index_in_range Let_def ci_def p1_def s1_def s2_def
        outcome_def p2_def p3_def s3_def)
  have k1: "driver_kept s1
     = (if progress_writable s
        then ((progress_files s)(name := Progress p1), True, driver_marks (trace s) @ [Cursor i])
        else driver_kept s)"
    by (simp add: s1_def driver_kept_save_progress p1_def)
  have k2: "driver_kept s2
     = (progress_files s1, progress_writable s1, driver_marks (trace s1) @ [Attempt i])"
    by (simp add: s2_def driver_kept_def driver_marks_def)
  have k3: "driver_kept (snd outcome) = driver_kept s2"
    unfolding outcome_def by (rule driver_kept_process_single_commit)
  have c3: "current_index p3 = i" by (simp add: p3_def p2_def p1_def)
  have k4: "driver_kept s3
     = (if progress_writable (snd outcome)
        then ((progress_files (snd outcome))(name := Progress p3), True,
              driver_marks (trace (snd outcome)) @ [Cursor i])
        else driver_kept (snd outcome))"
    by (simp add: s3_def driver_kept_save_progress c3)
  have "progress_writable s3 = progress_writable s
        \<and> driver_marks (trace s3) = driver_marks (trace s) @ step_marks (progress_writable s) i"
    using k1 k2 k3 k4
    by (cases "progress_writable s") (auto simp: driver_kept_def step_marks_def)
  moreover have "progress_status p3 = progress_status p" by (simp add: p3_def p2_def p1_def)
  moreover have "processed_commits p3 = processed_commits p @ [sha1 (cd ! nat i)]"
    by (simp add: p3_def p2_def p1_def ci_def)
  ultimately show ?thesis using step c3 by blast
qed

lemma commit_step_round:
  assumes "0 \<le> i" and "i < int (length cd)" and "progress_writable s"
  shows "\<exists>p3. let s2 = s\<lparr>progress_files := (progress_files s)(name := Progress (p\<lparr>current_index := i\<rparr>)),
                          trace := trace s @ [ProgressSaved name (p\<lparr>current_index := i\<rparr>),
                                              Verify i (sha1 (cd ! nat i))]\<rparr>;
                  s3 = snd (save_progress name p3
                              (snd (process_single_commit e (cd ! nat i) pp name s2)))
              in commit_step e cd pp name i (p, s) = Inr (p3, s3)
                 \<and> progress_files s2 name = Progress (p\<lparr>current_index := i\<rparr>)
                 \<and> progress_files s3 name = Progress p3
                 \<and> current_index p3 = i"
proof -
  define ci where "ci = cd ! nat i"
  define p1 where "p1 = p\<lparr>current_index := i\<rparr>"
  define s2 where "s2 = s\<lparr>progress_files := (progress_files s)(name := Progress p1),
                          trace := trace s @ [ProgressSaved name p1, Verify i (sha1 ci)]\<rparr>"
  define outcome where "outcome = process_single_commit e ci pp name s2"
  define p2 where "p2 = (if fst outcome then p1\<lparr>successful_commits := successful_commits p1 + 1\<rparr> else p1)"
  define p3 where "p3 = p2\<lparr>processed_commits := processed_commits p2 @ [sha1 ci]\<rparr>"
  define s3 where "s3 = snd (save_progress name p3 (snd outcome))"
  have step: "commit_step e cd pp name i (p, s) = Inr (p3, s3)"
    using assms
    by (simp add: commit_step_def py_index_in_range Let_def save_progress_def ci_def p1_def s2_def
        outcome_def p2_def p3_def s3_def)
  have "driver_kept (snd outcome) = driver_kept s2"
    unfolding outcome_def by (rule driver_kept_process_single_commit)
  then have "progress_writable (snd outcome)"
    using assms(3) by (simp add: driver_kept_def s2_def)
  then have f3: "progress_files s3 name = Progress p3"
    by (simp add: s3_def save_progress_def)
  have f2: "progress_files s2 name = Progress p1" by (simp add: s2_def)
  have c3: "current_index p3 = i" by (simp add: p3_def p2_def p1_def)
  from step f2 f3 c3 show ?thesis
    unfolding Let_def ci_def p1_def s2_def outcome_def s3_def by blast
qed

lemma commits_loop_marks:
  assumes "list_all (\<lambda>i. 0 \<le> i \<and> i < int (length cd)) idxs"
  shows "\<exists>p' s'. commits_loop e cd pp name idxs (p, s) = (None, p', s')
           \<and> progress_writable s' = progress_writable s
           \<and> driver_marks (trace s')
               = driver_marks (trace s) @ concat (map (step_marks (progress_writable s)) idxs)
           \<and> current_index p' = (if idxs = [] then current_index p else last idxs)
           \<and> progress_status p' = progress_status p
           \<and> processed_commits p' = processed_commits p @ map (\<lambda>i. sha1 (cd ! nat i)) idxs"
  using assms
proof (induction idxs arbitrary: p s)
  case Nil
  then show ?case by simp
next
  case (Cons i rest)
  then have i: "0 \<le> i" "i < int (length cd)"
    and r: "list_all (\<lambda>i. 0 \<le> i \<and> i < int (length cd)) rest"
    by simp_all
  from commit_step_marks[OF i, of e pp name p s]
  obtain p1 s1 where st: "commit_step e cd pp name i (p, s) = Inr (p1, s1)"
    and w1: "progress_writable s1 = progress_writable s"
    and m1: "driver_marks (trace s1) = driver_marks (trace s) @ step_marks (progress_writable s) i"
    and c1: "current_index p1 = i" and t1: "progress_status p1 = progress_status p"
    and d1: "processed_commits p1 = processed_commits p @ [sha1 (cd ! nat i)]"
    by blast
  from Cons.IH[OF r, of p1 s1]
  obtain p' s' where l: "commits_loop e cd pp name rest (p1, s1) = (None, p', s')"
    and w: "progress_writable s' = progress_writable s1"
    and m: "driver_marks (trace s')
               = driver_marks (trace s1) @ concat (map (step_marks (progress_writable s1)) rest)"
    and c: "current_index p' = (if rest = [] then current_index p1 else last rest)"
    and t: "progress_status p' = progress_status p1"
    and d: "processed_commits p' = processed_commits p1 @ map (\<lambda>i. sha1 (cd ! nat i)) rest"
    by blast
  from st l have "commits_loop e cd pp name (i # rest) (p, s) = (None, p', s')" by simp
  moreover have "progress_writable s' = progress_writable s" using w w1 by simp
  moreover have "driver_marks (trace s')
      = driver_marks (trace s) @ concat (map (step_marks (progress_writable s)) (i # rest))"
    using m m1 w1 by simp
  moreover have "current_index p' = (if i # rest = [] then current_index p else last (i # rest))"
    using c c1 by simp
  moreover have "progress_status p' = progress_status p" using t t1 by simp
  moreover have "processed_commits p' = processed_commits p @ map (\<lambda>i. sha1 (cd ! nat i)) (i # rest)"
    using d d1 by simp
  ultimately show ?case by blast
qed

lemma range_in_bounds:
  "0 \<le> k \<Longrightarrow> list_all (\<lambda>i. 0 \<le> i \<and> i < n) [k .. n - 1]"
  by (auto simp: list_all_iff)

lemma attempts_append: "attempts (xs @ ys) = attempts xs @ attempts ys"
  by (simp add: attempts_def)

lemma cursors_append: "cursors (xs @ ys) = cursors xs @ cursors ys"
  by (simp add: cursors_def)

lemma attempts_steps: "attempts (concat (map (step_marks w) idxs)) = idxs"
  by (induction idxs) (simp_all add: attempts_def step_marks_def)

lemma cursors_steps: "cursors (concat (map (step_marks True) idxs)) = concat (map (\<lambda>i. [i, i]) idxs)"
  by (induction idxs) (simp_all add: cursors_def step_marks_def)

lemma sorted_doubled:
  "sorted (idxs :: int list) \<Longrightarrow> sorted (concat (map (\<lambda>i. [i, i]) idxs))"
  by (induction idxs) auto

lemma set_doubled: "set (concat (map (\<lambda>i. [i, i]) idxs)) = set (idxs :: int list)"
  by (induction idxs) auto

lemma attempts_run_marks: "attempts (run_marks k n) = [k .. n - 1]"
  by (simp add: run_marks_def attempts_append attempts_steps) (simp add: attempts_def)

lemma sorted_cursors_run_marks: "sorted (cursors (run_marks k n))"
proof -
  have "cursors (run_marks k n)
          = concat (map (\<lambda>i. [i, i]) [k .. n - 1]) @ [if k < n then n - 1 else k]"
    by (simp add: run_marks_def cursors_append cursors_steps) (simp add: cursors_def)
  moreover have "sorted (concat (map (\<lambda>i. [i, i]) [k .. n - 1]))"
    by (rule sorted_doubled) simp
  ultimately show ?thesis
    by (auto simp: sorted_append set_doubled)
qed

subsection \<open>Resuming a project\<close>

lemma driver_kept_perform: "perform e a s = (r, s') \<Longrightarrow> driver_kept s' = driver_kept s"
  using kept_perform_eq kept_driver_kept by metis

lemma start_progress_resume:
  "current_index (start_progress name n s) = resume_point (progress_files s name)
   \<and> processed_commits (start_progress name n s) = earlier_commits (progress_files s name)"
  by (simp add: start_progress_def load_progress_def fresh_progress_def resume_point_def
      earlier_commits_def Let_def split: progress_file.splits)

lemma process_project_marks:
  assumes "valid_commits e name = Commits cd"
    and "0 \<le> resume_point (progress_files s name)" and "progress_writable s"
    and "fst (process_project e cwd name s) = None"
  shows "driver_marks (trace (snd (process_project e cwd name s)))
           = driver_marks (trace s) @ run_marks (resume_point (progress_files s name)) (int (length cd))
       \<and> (\<exists>pf. progress_files (snd (process_project e cwd name s)) name = Progress pf
             \<and> progress_status pf = ''completed''
             \<and> current_index pf
                 = (if resume_point (progress_files s name) < int (length cd)
                    then int (length cd) - 1 else resume_point (progress_files s name))
             \<and> processed_commits pf
                 = earlier_commits (progress_files s name)
                   @ map (\<lambda>i. sha1 (cd ! nat i))
                       [resume_point (progress_files s name) .. int (length cd) - 1])"
proof -
  let ?n = "int (length cd)"
  let ?pp = "path_join projects_root name"
  let ?p = "start_progress name ?n s"
  let ?k = "resume_point (progress_files s name)"
  have k: "current_index ?p = ?k" and e0: "processed_commits ?p = earlier_commits (progress_files s name)"
    using start_progress_resume[of name ?n s] by simp_all
  have k0: "0 \<le> current_index ?p" using assms(2) k by simp
  obtain r1 s1 where c1: "perform e (Chdir ?pp) s = (r1, s1)"
    by (cases "perform e (Chdir ?pp) s")
  have k1: "driver_kept s1 = driver_kept s" using c1 by (rule driver_kept_perform)
  obtain r2 s2 where c2: "run_command e [''git'', ''status'', ''--short''] ?pp s1 = (r2, s2)"
    by (cases "run_command e [''git'', ''status'', ''--short''] ?pp s1")
  have k2: "driver_kept s2 = driver_kept s"
    using c2 k1 driver_kept_perform unfolding run_command_def by metis
  then have w2: "progress_writable s2" using assms(3) by (simp add: driver_kept_def)
  from commits_loop_marks[OF range_in_bounds[OF k0], of e cd ?pp name ?p s2]
  obtain p3 s3 where l: "commits_loop e cd ?pp name [current_index ?p .. ?n - 1] (?p, s2) = (None, p3, s3)"
    and w3: "progress_writable s3 = progress_writable s2"
    and m3: "driver_marks (trace s3)
               = driver_marks (trace s2)
                 @ concat (map (step_marks (progress_writable s2)) [current_index ?p .. ?n - 1])"
    and c3: "current_index p3
               = (if [current_index ?p .. ?n - 1] = [] then current_index ?p
                  else last [current_index ?p .. ?n - 1])"
    and d3: "processed_commits p3
               = processed_commits ?p @ map (\<lambda>i. sha1 (cd ! nat i)) [current_index ?p .. ?n - 1]"
    by blast
  obtain r4 s4 where c4: "perform e (Chdir cwd) s3 = (r4, s4)"
    by (cases "perform e (Chdir cwd) s3")
  have k4: "driver_kept s4 = driver_kept s3" using c4 by (rule driver_kept_perform)
  have r1: "\<exists>x. r1 = Inr x"
  proof (cases r1)
    case (Inl err)
    with assms(1,4) c1 have False by (simp add: process_project_def Let_def)
    then show ?thesis ..
  qed simp
  have r2: "\<exists>x. r2 = Inr x"
  proof (cases r2)
    case (Inl err)
    with assms(1,4) c1 c2 r1 have False by (auto simp: process_project_def Let_def)
    then show ?thesis ..
  qed simp
  have r4: "\<exists>x. r4 = Inr x"
  proof (cases r4)
    case (Inl err)
    with assms(1,4) c1 c2 r1 r2 l c4 have False by (auto simp: process_project_def Let_def)
    then show ?thesis ..
  qed simp
  have res: "snd (process_project e cwd name s)
               = snd (save_progress name (p3\<lparr>progress_status := ''completed''\<rparr>) s4)"
    using assms(1) c1 c2 r1 r2 r4 l c4 by (auto simp: process_project_def Let_def)
  have w4: "progress_writable s4" using k4 w3 w2 by (simp add: driver_kept_def)
  have last: "current_index p3 = (if ?k < ?n then ?n - 1 else ?k)"
  proof (cases "?k < ?n")
    case True
    then have "[?k .. ?n - 1] = [?k .. ?n - 1 - 1] @ [?n - 1]"
      using upto_rec2[of ?k "?n - 1"] by simp
    then have "[?k .. ?n - 1] \<noteq> [] \<and> last [?k .. ?n - 1] = ?n - 1"
      by (metis snoc_eq_iff_butlast last_snoc)
    with c3 k True show ?thesis by simp
  next
    case False
    with c3 k show ?thesis by simp
  qed
  have "driver_marks (trace (snd (process_project e cwd name s)))
          = driver_marks (trace s4) @ [Cursor (current_index p3)]"
    using res w4 by (simp add: save_progress_def driver_marks_def)
  also have "driver_marks (trace s4) = driver_marks (trace s3)"
    using k4 by (simp add: driver_kept_def)
  also have "driver_marks (trace s3)
               = driver_marks (trace s) @ concat (map (step_marks True) [?k .. ?n - 1])"
    using m3 w2 k2 k by (simp add: driver_kept_def)
  finally have marks: "driver_marks (trace (snd (process_project e cwd name s)))
           = driver_marks (trace s) @ run_marks ?k ?n"
    using last by (simp add: run_marks_def)
  have "progress_files (snd (process_project e cwd name s)) name
          = Progress (p3\<lparr>progress_status := ''completed''\<rparr>)"
    using res w4 by (simp add: save_progress_def)
  moreover have "progress_status (p3\<lparr>progress_status := ''completed''\<rparr>) = ''completed''" by simp
  moreover have "current_index (p3\<lparr>progress_status := ''completed''\<rparr>)
                   = (if ?k < ?n then ?n - 1 else ?k)" using last by simp
  moreover have "processed_commits (p3\<lparr>progress_status := ''completed''\<rparr>)
                   = earlier_commits (progress_files s name)
                     @ map (\<lambda>i. sha1 (cd ! nat i)) [?k .. ?n - 1]"
    using d3 e0 k by simp
  ultimately show ?thesis using marks by blast
qed

lemma step_marks_True: "step_marks True = (\<lambda>i. [Cursor i, Attempt i, Cursor i])"
  by (rule ext) (simp add: step_marks_def)

text \<open>
  Claim C3. A project is run with a writable progress directory, and the run ends without
  an exception leaving \<^verbatim>\<open>main\<close>. Let \<open>k\<close> be where the run starts: the persisted cursor,
  or 0 for a first run, when no record can be read or its status is \<^verbatim>\<open>not_started\<close>;
  let \<open>k \<ge> 0\<close>. Then what the driver adds to the trace is, for each index from \<open>k\<close> to
  the last in order, a save of the record with the cursor at that index, the attempt of
  the commit at that index, and a save with the same cursor again, and at the end the save
  of the completed record. So the attempts are the indices from \<open>k\<close> on, none below
  \<open>k\<close>, and the cursors written never decrease. The progress file holds, after the run, the
  completed record with the cursor on the last index attempted and the identifiers of the
  attempted commits appended to those taken over. In every round of the loop the verifier
  is called on a state whose progress file holds the record with the cursor on the index
  of the round, and after the round the file holds the updated record with that cursor.
\<close>

theorem resumable_cursor:
  assumes "valid_commits e name = Commits cd"
    and "0 \<le> resume_point (progress_files s name)" and "progress_writable s"
    and "fst (process_project e cwd name s) = None"
  shows "let k = resume_point (progress_files s name);
             n = int (length cd);
             s' = snd (process_project e cwd name s)
         in driver_marks (trace s') = driver_marks (trace s) @ run_marks k n
          \<and> run_marks k n
               = concat (map (\<lambda>i. [Cursor i, Attempt i, Cursor i]) [k .. n - 1])
                 @ [Cursor (if k < n then n - 1 else k)]
          \<and> attempts (run_marks k n) = [k .. n - 1]
          \<and> list_all (\<lambda>i. k \<le> i) (attempts (run_marks k n))
          \<and> sorted (cursors (run_marks k n))
          \<and> (\<exists>pf. progress_files s' name = Progress pf
                \<and> progress_status pf = ''completed''
                \<and> current_index pf = (if k < n then n - 1 else k)
                \<and> processed_commits pf
                    = earlier_commits (progress_files s name) @ map (\<lambda>i. sha1 (cd ! nat i)) [k .. n - 1])
          \<and> (\<forall>i p s0 pp. 0 \<le> i \<and> i < n \<and> progress_writable s0 \<longrightarrow>
                (\<exists>p3. let s2 = s0\<lparr>progress_files :=
                                     (progress_files s0)(name := Progress (p\<lparr>current_index := i\<rparr>)),
                                   trace := trace s0 @ [ProgressSaved name (p\<lparr>current_index := i\<rparr>),
                                                        Verify i (sha1 (cd ! nat i))]\<rparr>;
                           s3 = snd (save_progress name p3
                                       (snd (process_single_commit e (cd ! nat i) pp name s2)))
                       in commit_step e cd pp name i (p, s0) = Inr (p3, s3)
                          \<and> progress_files s2 name = Progress (p\<lparr>current_index := i\<rparr>)
                          \<and> progress_files s3 name = Progress p3
                          \<and> current_index p3 = i))"
proof -
  let ?k = "resume_point (progress_files s name)"
  let ?n = "int (length cd)"
  have "run_marks ?k ?n
          = concat (map (\<lambda>i. [Cursor i, Attempt i, Cursor i]) [?k .. ?n - 1])
            @ [Cursor (if ?k < ?n then ?n - 1 else ?k)]"
    by (simp add: run_marks_def step_marks_True)
  moreover have "list_all (\<lambda>i. ?k \<le> i) (attempts (run_marks ?k ?n))"
    by (simp add: attempts_run_marks list_all_iff)
  moreover have "\<forall>i p s0 pp. 0 \<le> i \<and> i < ?n \<and> progress_writable s0 \<longrightarrow>
                (\<exists>p3. let s2 = s0\<lparr>progress_files :=
                                     (progress_files s0)(name := Progress (p\<lparr>current_index := i\<rparr>)),
                                   trace := trace s0 @ [ProgressSaved name (p\<lparr>current_index := i\<rparr>),
                                                        Verify i (sha1 (cd ! nat i))]\<rparr>;
                           s3 = snd (save_progress name p3
                                       (snd (process_single_commit e (cd ! nat i) pp name s2)))
                       in commit_step e cd pp name i (p, s0) = Inr (p3, s3)
                          \<and> progress_files s2 name = Progress (p\<lparr>current_index := i\<rparr>)
                          \<and> progress_files s3 name = Progress p3
                          \<and> current_index p3 = i)"
    using commit_step_round by blast
  ultimately show ?thesis
    unfolding Let_def
    using process_project_marks[OF assms]
      attempts_run_marks[of ?k ?n] sorted_cursors_run_marks[of ?k ?n]
    unfolding Let_def
    by blast
qed

lemma perform_fixed_env:
  "perform (fixed_env rep cs) a s = (Inr True, s\<lparr>trace := trace s @ [Exec a]\<rparr>)"
  by (simp add: perform_def fixed_env_def)

lemma process_project_fixed_env:
  assumes "0 \<le> current_index (start_progress name (int (length cs)) s)"
  shows "fst (process_project (fixed_env rep cs) cwd name s) = None"
proof -
  let ?e = "fixed_env rep cs"
  let ?pp = "path_join projects_root name"
  let ?p = "start_progress name (int (length cs)) s"
  let ?s2 = "s\<lparr>trace := trace s @ [Exec (Chdir ?pp)]\<rparr>
              \<lparr>trace := trace (s\<lparr>trace := trace s @ [Exec (Chdir ?pp)]\<rparr>)
                 @ [Exec (RunCommand [''git'', ''status'', ''--short''] ?pp)]\<rparr>"
  from commits_loop_marks[OF range_in_bounds[OF assms], of ?e cs ?pp name ?p ?s2]
  obtain p3 s3 where
    "commits_loop ?e cs ?pp name [current_index ?p .. int (length cs) - 1] (?p, ?s2) = (None, p3, s3)"
    by blast
  moreover have "valid_commits ?e name = Commits cs" by (simp add: fixed_env_def)
  ultimately show ?thesis
    by (simp add: process_project_def Let_def run_command_def perform_fixed_env)
qed

text \<open>
  Two commits. With a persisted cursor of 1 the second commit alone is attempted; on a
  first run, without a progress file, both are, from index 0. Either run leaves the
  completed record with the cursor 1 and both identifiers in the file.
\<close>

theorem resumable_cursor_witness:
  "valid_commits (fixed_env (Report two_methods_report) two_commits) ''p'' = Commits two_commits
   \<and> resume_point (progress_files resumed_sys ''p'') = 1
   \<and> progress_writable resumed_sys
   \<and> fst (process_project (fixed_env (Report two_methods_report) two_commits) ''/cwd'' ''p'' resumed_sys) = None
   \<and> driver_marks (trace (snd (process_project (fixed_env (Report two_methods_report) two_commits)
         ''/cwd'' ''p'' resumed_sys)))
       = [Cursor 1, Attempt 1, Cursor 1, Cursor 1]
   \<and> (case progress_files (snd (process_project (fixed_env (Report two_methods_report) two_commits)
         ''/cwd'' ''p'' resumed_sys)) ''p'' of
         Progress pf \<Rightarrow> progress_status pf = ''completed'' \<and> current_index pf = 1
                          \<and> processed_commits pf = [''c0'', ''c1'']
       | NoProgress \<Rightarrow> False | BadProgress \<Rightarrow> False)
   \<and> resume_point (progress_files empty_sys ''p'') = 0
   \<and> progress_writable empty_sys
   \<and> fst (process_project (fixed_env (Report two_methods_report) two_commits) ''/cwd'' ''p'' empty_sys) = None
   \<and> driver_marks (trace (snd (process_project (fixed_env (Report two_methods_report) two_commits)
         ''/cwd'' ''p'' empty_sys)))
       = [Cursor 0, Attempt 0, Cursor 0, Cursor 1, Attempt 1, Cursor 1, Cursor 1]
   \<and> (case progress_files (snd (process_project (fixed_env (Report two_methods_report) two_commits)
         ''/cwd'' ''p'' empty_sys)) ''p'' of
         Progress pf \<Rightarrow> progress_status pf = ''completed'' \<and> current_index pf = 1
                          \<and> processed_commits pf = [''c0'', ''c1'']
       | NoProgress \<Rightarrow> False | BadProgress \<Rightarrow> False)"
proof -
  let ?e = "fixed_env (Report two_methods_report) two_commits"
  have h1: "valid_commits ?e ''p'' = Commits two_commits" by (simp add: fixed_env_def)
  have r: "resume_point (progress_files resumed_sys ''p'') = 1"
    "earlier_commits (progress_files resumed_sys ''p'') = [''c0'']"
    by (simp_all add: resume_point_def earlier_commits_def resumed_sys_def empty_sys_def
        resumed_progress_def)
  have r0: "resume_point (progress_files empty_sys ''p'') = 0"
    "earlier_commits (progress_files empty_sys ''p'') = []"
    by (simp_all add: resume_point_def earlier_commits_def empty_sys_def)
  have h2: "0 \<le> resume_point (progress_files resumed_sys ''p'')" using r by simp
  have g2: "0 \<le> resume_point (progress_files empty_sys ''p'')" using r0 by simp
  have h3: "progress_writable resumed_sys" by (simp add: resumed_sys_def empty_sys_def)
  have g3: "progress_writable empty_sys" by (simp add: empty_sys_def)
  have h4: "fst (process_project ?e ''/cwd'' ''p'' resumed_sys) = None"
    by (rule process_project_fixed_env)
       (simp add: start_progress_def load_progress_def resumed_sys_def empty_sys_def
          resumed_progress_def)
  have g4: "fst (process_project ?e ''/cwd'' ''p'' empty_sys) = None"
    by (rule process_project_fixed_env)
       (simp add: start_progress_def load_progress_def empty_sys_def fresh_progress_def)
  have t: "driver_marks (trace resumed_sys) = []" "driver_marks (trace empty_sys) = []"
    by (simp_all add: resumed_sys_def empty_sys_def driver_marks_def)
  have c: "int (length two_commits) = 2" "sha1 (two_commits ! 0) = ''c0''"
    "sha1 (two_commits ! 1) = ''c1''" "sha1 (two_commits ! Suc 0) = ''c1''"
    by (simp_all add: two_commits_def crowded_commit_def sample_commit_def)
  have u: "[0 .. 1] = [0, 1::int]" "[1 .. 1] = [1::int]" by (simp_all add: upto_rec1)
  from resumable_cursor [OF h1 h2 h3 h4] t r c u
  have a: "driver_marks (trace (snd (process_project ?e ''/cwd'' ''p'' resumed_sys)))
          = [Cursor 1, Attempt 1, Cursor 1, Cursor 1]
     \<and> (case progress_files (snd (process_project ?e ''/cwd'' ''p'' resumed_sys)) ''p'' of
         Progress pf \<Rightarrow> progress_status pf = ''completed'' \<and> current_index pf = 1
                          \<and> processed_commits pf = [''c0'', ''c1'']
       | NoProgress \<Rightarrow> False | BadProgress \<Rightarrow> False)"
    by (auto simp: Let_def)
  from resumable_cursor [OF h1 g2 g3 g4] t r0 c u
  have b: "driver_marks (trace (snd (process_project ?e ''/cwd'' ''p'' empty_sys)))
          = [Cursor 0, Attempt 0, Cursor 0, Cursor 1, Attempt 1, Cursor 1, Cursor 1]
     \<and> (case progress_files (snd (process_project ?e ''/cwd'' ''p'' empty_sys)) ''p'' of
         Progress pf \<Rightarrow> progress_status pf = ''completed'' \<and> current_index pf = 1
                          \<and> processed_commits pf = [''c0'', ''c1'']
       | NoProgress \<Rightarrow> False | BadProgress \<Rightarrow> False)"
    by (auto simp: Let_def)
  from a b h1 r r0 h3 g3 h4 g4 show ?thesis by blast
qed

subsection \<open>A commit already recorded as processed\<close>

text \<open>
  Claim C10. A commit whose identifier is in the persisted list of processed commits makes
  the verifier return \<^verbatim>\<open>True\<close> with the state as it found it. One round of the driver's
  loop on such a commit, with a writable progress directory, therefore writes the progress
  record twice and nothing else: no external action runs, the count of successful commits
  goes up by one and the identifier is appended to the list a second time, which then has
  a duplicate.
\<close>

theorem already_processed_counted_again:
  assumes "progress_writable s" and "0 \<le> i" and "i < int (length cd)"
    and "sha1 (cd ! nat i) \<in> set (processed_commits p)"
  shows "(\<forall>s0. is_commit_processed name (sha1 (cd ! nat i)) s0
            \<longrightarrow> process_single_commit e (cd ! nat i) pp name s0 = (True, s0))
       \<and> commit_step e cd pp name i (p, s)
           = Inr (p\<lparr>current_index := i, successful_commits := successful_commits p + 1,
                    processed_commits := processed_commits p @ [sha1 (cd ! nat i)]\<rparr>,
                  s\<lparr>progress_files := (progress_files s)(name := Progress
                       (p\<lparr>current_index := i, successful_commits := successful_commits p + 1,
                          processed_commits := processed_commits p @ [sha1 (cd ! nat i)]\<rparr>)),
                    trace := trace s @
                      [ProgressSaved name (p\<lparr>current_index := i\<rparr>),
                       Verify i (sha1 (cd ! nat i)),
                       ProgressSaved name
                         (p\<lparr>current_index := i, successful_commits := successful_commits p + 1,
                            processed_commits := processed_commits p @ [sha1 (cd ! nat i)]\<rparr>)]\<rparr>)
       \<and> \<not> distinct (processed_commits p @ [sha1 (cd ! nat i)])"
proof -
  let ?c = "sha1 (cd ! nat i)"
  let ?p1 = "p\<lparr>current_index := i\<rparr>"
  let ?s2 = "s\<lparr>progress_files := (progress_files s)(name := Progress ?p1),
               trace := trace s @ [ProgressSaved name ?p1, Verify i ?c]\<rparr>"
  have skip: "process_single_commit e (cd ! nat i) pp name s0 = (True, s0)"
    if "is_commit_processed name ?c s0" for s0
    using that by (simp add: process_single_commit_def)
  have "is_commit_processed name ?c ?s2"
    using assms(4) by (simp add: is_commit_processed_def load_progress_def)
  then have v: "process_single_commit e (cd ! nat i) pp name ?s2 = (True, ?s2)"
    by (rule skip)
  have "commit_step e cd pp name i (p, s)
           = Inr (p\<lparr>current_index := i, successful_commits := successful_commits p + 1,
                    processed_commits := processed_commits p @ [?c]\<rparr>,
                  s\<lparr>progress_files := (progress_files s)(name := Progress
                       (p\<lparr>current_index := i, successful_commits := successful_commits p + 1,
                          processed_commits := processed_commits p @ [?c]\<rparr>)),
                    trace := trace s @
                      [ProgressSaved name ?p1, Verify i ?c,
                       ProgressSaved name
                         (p\<lparr>current_index := i, successful_commits := successful_commits p + 1,
                            processed_commits := processed_commits p @ [?c]\<rparr>)]\<rparr>)"
    using assms(1,2,3) v
    by (simp add: commit_step_def py_index_in_range Let_def save_progress_def)
  moreover have "\<not> distinct (processed_commits p @ [?c])" using assms(4) by simp
  ultimately show ?thesis using skip by blast
qed

text \<open>
  A finished run over the one commit \<^verbatim>\<open>c1\<close>, with no successful commit, is started
  again: the list becomes \<^verbatim>\<open>c1, c1\<close> and the count of successful commits 1, though no
  verification ran and no result was written.
\<close>

theorem already_processed_counted_again_witness:
  "progress_writable done_sys \<and> (0::int) \<le> 0 \<and> 0 < int (length [sample_commit])
   \<and> sha1 ([sample_commit] ! nat 0) \<in> set (processed_commits done_progress)
   \<and> (case commit_step sample_env [sample_commit] ''/repo'' ''p'' 0 (done_progress, done_sys) of
         Inl err \<Rightarrow> False
       | Inr (p', s') \<Rightarrow>
           processed_commits p' = [''c1'', ''c1''] \<and> successful_commits p' = 1
           \<and> filter is_exec (trace s') = [] \<and> saved_results (trace s') = [])"
proof -
  have h1: "progress_writable done_sys" by (simp add: done_sys_def empty_sys_def)
  have h2: "(0::int) \<le> 0" by simp
  have h3: "0 < int (length [sample_commit])" by simp
  have h4: "sha1 ([sample_commit] ! nat 0) \<in> set (processed_commits done_progress)"
    by (simp add: sample_commit_def done_progress_def)
  have t: "trace done_sys = []" by (simp add: done_sys_def empty_sys_def)
  from already_processed_counted_again [OF h1 h2 h3 h4, of "''p''" sample_env "''/repo''"]
  have "commit_step sample_env [sample_commit] ''/repo'' ''p'' 0 (done_progress, done_sys)
           = Inr (done_progress\<lparr>current_index := 0,
                    successful_commits := successful_commits done_progress + 1,
                    processed_commits := processed_commits done_progress @ [sha1 ([sample_commit] ! nat 0)]\<rparr>,
                  done_sys\<lparr>progress_files := (progress_files done_sys)(''p'' := Progress
                       (done_progress\<lparr>current_index := 0,
                          successful_commits := successful_commits done_progress + 1,
                          processed_commits := processed_commits done_progress @ [sha1 ([sample_commit] ! nat 0)]\<rparr>)),
                    trace := trace done_sys @
                      [ProgressSaved ''p'' (done_progress\<lparr>current_index := 0\<rparr>),
                       Verify 0 (sha1 ([sample_commit] ! nat 0)),
                       ProgressSaved ''p''
                         (done_progress\<lparr>current_index := 0,
                            successful_commits := successful_commits done_progress + 1,
                            processed_commits := processed_commits done_progress @ [sha1 ([sample_commit] ! nat 0)]\<rparr>)]\<rparr>)"
    by blast
  then have "(case commit_step sample_env [sample_commit] ''/repo'' ''p'' 0 (done_progress, done_sys) of
         Inl err \<Rightarrow> False
       | Inr (p', s') \<Rightarrow>
           processed_commits p' = [''c1'', ''c1''] \<and> successful_commits p' = 1
           \<and> filter is_exec (trace s') = [] \<and> saved_results (trace s') = [])"
    using t by (simp add: done_progress_def sample_commit_def saved_results_def)
  with h1 h3 h4 show ?thesis by simp
qed

subsection \<open>Exceptions inside a verification\<close>

lemma verification_raise_kept:
  "verification e ci pp name s = (Inl err, s1) \<Longrightarrow> kept s1 = kept s"
  using verification_cases[of e ci pp name s "Inl err" s1] by auto

text \<open>
  Claim C7, as amended. When the body of the \<^verbatim>\<open>try\<close> block raises on an admitted commit,
  with a writable results directory, the verifier returns \<^verbatim>\<open>False\<close> and persists one
  result with the status \<^verbatim>\<open>error\<close>, empty pair lists, no \<^verbatim>\<open>reason\<close>, and the text of
  the exception under the key \<^verbatim>\<open>error_message\<close>: the message an action of the
  environment raised with, or \<^verbatim>\<open>list index out of range\<close> for the IndexError of
  \<^verbatim>\<open>parse_method_id\<close>. The verifier has no other way out than a return, so for every
  environment, whatever its actions raise, the driver's loop over the indices from a
  cursor \<open>k \<ge> 0\<close> on ends without an exception, has attempted every one of them, and has
  appended the identifier of every one of them to the processed commits.
\<close>

theorem exception_contained:
  assumes "\<not> is_commit_processed name (sha1 ci) s" and "\<not> counts_rejected ci"
    and "results_writable s"
    and "verification e ci pp name s = (Inl err, s1)"
  shows "process_single_commit e ci pp name s
           = (False,
              persist name
                \<lparr>commit = sha1 ci, new_pairs = [], old_pairs = [], status = ''error'',
                 reason = None, error_message = Some (str_of_error err)\<rparr> s1)
       \<and> stored_results s1 name = stored_results s name
       \<and> str_of_error IndexError = ''list index out of range''
       \<and> (\<forall>msg. str_of_error (OtherError msg) = msg)
       \<and> (\<forall>cd p s0 k. 0 \<le> k \<longrightarrow>
            fst (commits_loop e cd pp name [k .. int (length cd) - 1] (p, s0)) = None
            \<and> attempts (driver_marks (trace (snd (snd
                 (commits_loop e cd pp name [k .. int (length cd) - 1] (p, s0))))))
               = attempts (driver_marks (trace s0)) @ [k .. int (length cd) - 1]
            \<and> processed_commits (fst (snd
                 (commits_loop e cd pp name [k .. int (length cd) - 1] (p, s0))))
               = processed_commits p @ map (\<lambda>i. sha1 (cd ! nat i)) [k .. int (length cd) - 1])"
proof -
  have k: "kept s1 = kept s" using assms(4) by (rule verification_raise_kept)
  then have w: "results_writable s1" using assms(3) by (simp add: kept_def)
  have "process_single_commit e ci pp name s
           = (False,
              persist name
                \<lparr>commit = sha1 ci, new_pairs = [], old_pairs = [], status = ''error'',
                 reason = None, error_message = Some (str_of_error err)\<rparr> s1)"
    using assms w by (simp add: process_single_commit_def append_result_persist error_result_def)
  moreover have "stored_results s1 name = stored_results s name" using k by (rule kept_stored)
  moreover have "str_of_error IndexError = ''list index out of range''
       \<and> (\<forall>msg. str_of_error (OtherError msg) = msg)"
    by simp
  moreover have "fst (commits_loop e cd pp name [k .. int (length cd) - 1] (p, s0)) = None
            \<and> attempts (driver_marks (trace (snd (snd
                 (commits_loop e cd pp name [k .. int (length cd) - 1] (p, s0))))))
               = attempts (driver_marks (trace s0)) @ [k .. int (length cd) - 1]
            \<and> processed_commits (fst (snd
                 (commits_loop e cd pp name [k .. int (length cd) - 1] (p, s0))))
               = processed_commits p @ map (\<lambda>i. sha1 (cd ! nat i)) [k .. int (length cd) - 1]"
    if "0 \<le> k" for cd p s0 k
  proof -
    from commits_loop_marks[OF range_in_bounds[OF that], of e cd pp name p s0]
    obtain p' s' where
      "commits_loop e cd pp name [k .. int (length cd) - 1] (p, s0) = (None, p', s')"
      "driver_marks (trace s')
         = driver_marks (trace s0)
           @ concat (map (step_marks (progress_writable s0)) [k .. int (length cd) - 1])"
      "processed_commits p' = processed_commits p @ map (\<lambda>i. sha1 (cd ! nat i)) [k .. int (length cd) - 1]"
      by blast
    then show ?thesis by (simp add: attempts_append attempts_steps)
  qed
  ultimately show ?thesis by blast
qed

lemma broken_verification:
  "fst (verification sample_env broken_commit ''/repo'' ''p'' empty_sys) = Inl IndexError"
  by code_simp

text \<open>
  A test method identifier without a bracket raises IndexError in the new-revision phase:
  the commit is stored as an error with the text of the exception, and the loop goes on to
  the commit after it.
\<close>

theorem exception_contained_witness:
  "\<not> is_commit_processed ''p'' (sha1 broken_commit) empty_sys \<and> \<not> counts_rejected broken_commit
   \<and> results_writable empty_sys
   \<and> fst (verification sample_env broken_commit ''/repo'' ''p'' empty_sys) = Inl IndexError
   \<and> fst (process_single_commit sample_env broken_commit ''/repo'' ''p'' empty_sys) = False
   \<and> stored_results (snd (process_single_commit sample_env broken_commit ''/repo'' ''p'' empty_sys)) ''p''
       = [\<lparr>commit = ''c1'', new_pairs = [], old_pairs = [], status = ''error'', reason = None,
           error_message = Some ''list index out of range''\<rparr>]
   \<and> fst (commits_loop sample_env [broken_commit, sample_commit] ''/repo'' ''p'' [0 .. 1]
           (done_progress, empty_sys)) = None
   \<and> attempts (driver_marks (trace (snd (snd
        (commits_loop sample_env [broken_commit, sample_commit] ''/repo'' ''p'' [0 .. 1]
           (done_progress, empty_sys)))))) = [0, 1]
   \<and> processed_commits (fst (snd
        (commits_loop sample_env [broken_commit, sample_commit] ''/repo'' ''p'' [0 .. 1]
           (done_progress, empty_sys)))) = [''c1'', ''c1'', ''c1'']"
proof -
  let ?s1 = "snd (verification sample_env broken_commit ''/repo'' ''p'' empty_sys)"
  have h1: "\<not> is_commit_processed ''p'' (sha1 broken_commit) empty_sys"
    by (simp add: is_commit_processed_def load_progress_def empty_sys_def fresh_progress_def)
  have h2: "\<not> counts_rejected broken_commit"
    by (simp add: counts_rejected_def broken_commit_def sample_commit_def)
  have h3: "results_writable empty_sys" by (simp add: empty_sys_def)
  have h4: "verification sample_env broken_commit ''/repo'' ''p'' empty_sys = (Inl IndexError, ?s1)"
    using broken_verification by (simp add: prod_eq_iff)
  have e: "stored_results empty_sys ''p'' = []" by (simp add: stored_results_def empty_sys_def)
  have t: "attempts (driver_marks (trace empty_sys)) = []"
    by (simp add: empty_sys_def driver_marks_def attempts_def)
  have sha: "sha1 broken_commit = ''c1''" by (simp add: broken_commit_def sample_commit_def)
  have d: "processed_commits done_progress = [''c1'']"
    "sha1 ([broken_commit, sample_commit] ! 0) = ''c1''"
    "sha1 ([broken_commit, sample_commit] ! Suc 0) = ''c1''"
    by (simp_all add: done_progress_def broken_commit_def sample_commit_def)
  note main = exception_contained [OF h1 h2 h3 h4]
  from main have p: "process_single_commit sample_env broken_commit ''/repo'' ''p'' empty_sys
           = (False,
              persist ''p''
                \<lparr>commit = sha1 broken_commit, new_pairs = [], old_pairs = [], status = ''error'',
                 reason = None, error_message = Some (str_of_error IndexError)\<rparr> ?s1)"
    and st: "stored_results ?s1 ''p'' = stored_results empty_sys ''p''"
    by blast+
  from main have "\<forall>cd p s0 k. 0 \<le> k \<longrightarrow>
            fst (commits_loop sample_env cd ''/repo'' ''p'' [k .. int (length cd) - 1] (p, s0)) = None
            \<and> attempts (driver_marks (trace (snd (snd
                 (commits_loop sample_env cd ''/repo'' ''p'' [k .. int (length cd) - 1] (p, s0))))))
               = attempts (driver_marks (trace s0)) @ [k .. int (length cd) - 1]
            \<and> processed_commits (fst (snd
                 (commits_loop sample_env cd ''/repo'' ''p'' [k .. int (length cd) - 1] (p, s0))))
               = processed_commits p @ map (\<lambda>i. sha1 (cd ! nat i)) [k .. int (length cd) - 1]"
    by blast
  from this[rule_format, of 0 "[broken_commit, sample_commit]" done_progress empty_sys] t d
  have l: "fst (commits_loop sample_env [broken_commit, sample_commit] ''/repo'' ''p'' [0 .. 1]
           (done_progress, empty_sys)) = None
     \<and> attempts (driver_marks (trace (snd (snd
        (commits_loop sample_env [broken_commit, sample_commit] ''/repo'' ''p'' [0 .. 1]
           (done_progress, empty_sys)))))) = [0, 1]
     \<and> processed_commits (fst (snd
        (commits_loop sample_env [broken_commit, sample_commit] ''/repo'' ''p'' [0 .. 1]
           (done_progress, empty_sys)))) = [''c1'', ''c1'', ''c1'']"
    by (simp add: upto_rec1)
  have "stored_results (snd (process_single_commit sample_env broken_commit ''/repo'' ''p'' empty_sys)) ''p''
       = [\<lparr>commit = ''c1'', new_pairs = [], old_pairs = [], status = ''error'', reason = None,
           error_message = Some ''list index out of range''\<rparr>]"
    using p st e sha by (simp add: stored_results_persist)
  moreover have "fst (process_single_commit sample_env broken_commit ''/repo'' ''p'' empty_sys) = False"
    using p by simp
  ultimately show ?thesis using h1 h2 h3 broken_verification l by blast
qed

lemma broken_commit_stored:
  "stored_results (snd (process_single_commit sample_env broken_commit ''/repo'' ''p'' empty_sys)) ''p''
     = [\<lparr>commit = ''c1'', new_pairs = [], old_pairs = [], status = ''error'', reason = None,
         error_message = Some ''list index out of range''\<rparr>]"
  by code_simp

text \<open>
  The claim as stated fails on the commit with the test method identifier without a
  bracket: the stored result has no reason, and the text of the exception stands under
  \<^verbatim>\<open>error_message\<close>.
\<close>

theorem exception_contained_counterexample:
  "fst (verification sample_env broken_commit ''/repo'' ''p'' empty_sys) = Inl IndexError
   \<and> map status (stored_results (snd (process_single_commit sample_env broken_commit
        ''/repo'' ''p'' empty_sys)) ''p'') = [''error'']
   \<and> map reason (stored_results (snd (process_single_commit sample_env broken_commit
        ''/repo'' ''p'' empty_sys)) ''p'') = [None]
   \<and> map error_message (stored_results (snd (process_single_commit sample_env broken_commit
        ''/repo'' ''p'' empty_sys)) ''p'') = [Some ''list index out of range'']"
  using broken_verification broken_commit_stored by simp

text \<open>
  The sample commit on an empty results directory: one result is written, for \<^verbatim>\<open>c1\<close>.
\<close>

theorem one_result_per_verification_witness:
  "results_writable empty_sys
   \<and> \<not> is_commit_processed ''p'' (sha1 sample_commit) empty_sys \<and> \<not> counts_rejected sample_commit
   \<and> fst (switch_to_new sample_env (sha1 sample_commit) ''/repo'' empty_sys) \<noteq> Inr False
   \<and> (\<exists>res. commit res = ''c1''
        \<and> saved_results (trace (snd (process_single_commit sample_env sample_commit ''/repo'' ''p'' empty_sys)))
            = [(''p'', res)]
        \<and> results_files (snd (process_single_commit sample_env sample_commit ''/repo'' ''p'' empty_sys)) ''p''
            = Results [res])"
proof -
  note a = sample_admitted
  have h: "results_writable empty_sys" using a by blast
  have n: "\<not> is_commit_processed ''p'' (sha1 sample_commit) empty_sys \<and> \<not> counts_rejected sample_commit"
    using a by blast
  have sw: "fst (switch_to_new sample_env (sha1 sample_commit) ''/repo'' empty_sys) \<noteq> Inr False"
    by (simp add: switch_to_new_def run_command_def perform_def sample_env_def fixed_env_def)
  have t: "saved_results (trace empty_sys) = []" by (simp add: empty_sys_def saved_results_def)
  have e: "stored_results empty_sys ''p'' = []" using a by blast
  have sha: "sha1 sample_commit = ''c1''" using a by blast
  from one_result_per_verification [OF h, where name = "''p''" and ci = sample_commit
      and e = sample_env and pp = "''/repo''"] n sw
  obtain res where "commit res = sha1 sample_commit"
    and "saved_results (trace (snd (process_single_commit sample_env sample_commit ''/repo'' ''p'' empty_sys)))
            = saved_results (trace empty_sys) @ [(''p'', res)]"
    and "results_files (snd (process_single_commit sample_env sample_commit ''/repo'' ''p'' empty_sys))
            = (results_files empty_sys)(''p'' := Results (upsert res (stored_results empty_sys ''p'')))"
    by blast
  then have "commit res = ''c1''
        \<and> saved_results (trace (snd (process_single_commit sample_env sample_commit ''/repo'' ''p'' empty_sys)))
            = [(''p'', res)]
        \<and> results_files (snd (process_single_commit sample_env sample_commit ''/repo'' ''p'' empty_sys)) ''p''
            = Results [res]"
    using t e sha by simp
  with h n sw show ?thesis by blast
qed

end
